theory Spec2Isabelle
  imports Complex_Main "HOL-Library.Word" "HOL-Library.Log_Nat"
begin

section \<open>JavaScript values\<close>

subsection \<open>Strings\<close>

text \<open>
  A JavaScript string is a sequence of 16-bit code units. String literals of the source are
  written \<open>js ''...''\<close>; all of them are ASCII.
\<close>

type_synonym jschar = "16 word"
type_synonym jstring = "jschar list"

definition js :: "string \<Rightarrow> jstring" where
  "js s = map (\<lambda>c. of_nat (of_char c)) s"

text \<open>The class \<open>\s\<close> of regular expressions, which is also what \<open>trim\<close> strips.\<close>

definition is_js_space :: "jschar \<Rightarrow> bool" where
  "is_js_space c \<longleftrightarrow>
     (0x09 \<le> c \<and> c \<le> 0x0D) \<or> c = 0x20 \<or> c = 0xA0 \<or> c = 0x1680 \<or>
     (0x2000 \<le> c \<and> c \<le> 0x200A) \<or> c = 0x2028 \<or> c = 0x2029 \<or> c = 0x202F \<or>
     c = 0x205F \<or> c = 0x3000 \<or> c = 0xFEFF"

definition trim :: "jstring \<Rightarrow> jstring" where
  "trim s = rev (dropWhile is_js_space (rev (dropWhile is_js_space s)))"

text \<open>\<open>s.substring(0, n)\<close>\<close>

definition substring0 :: "nat \<Rightarrow> jstring \<Rightarrow> jstring" where
  "substring0 n s = take n s"

fun starts_with :: "jstring \<Rightarrow> jstring \<Rightarrow> bool" where
  "starts_with [] s = True"
| "starts_with (p # ps) [] = False"
| "starts_with (p # ps) (c # cs) = (p = c \<and> starts_with ps cs)"

text \<open>\<open>s.includes(p)\<close> on strings\<close>

fun includes_str :: "jstring \<Rightarrow> jstring \<Rightarrow> bool" where
  "includes_str [] p = starts_with p []"
| "includes_str (c # t) p = (starts_with p (c # t) \<or> includes_str t p)"

text \<open>Decimal rendering of a non-negative integer, as a template literal renders it.\<close>

fun show_nat :: "nat \<Rightarrow> jstring" where
  "show_nat n = (if n < 10 then [of_nat (48 + n)] else show_nat (n div 10) @ [of_nat (48 + n mod 10)])"

declare show_nat.simps [simp del]

subsection \<open>Numbers\<close>

text \<open>
  A JavaScript number is an IEEE 754 binary64 value. A finite one is kept as the rational it
  denotes; the two zeros are identified, which no operation used by the program tells apart.
\<close>

datatype jsnum = Finite rat | PosInfinity | NegInfinity | NaN

text \<open>Round to the nearest integer, ties to even.\<close>

definition rne :: "rat \<Rightarrow> int" where
  "rne x = (let f = \<lfloor>x\<rfloor>; d = x - of_int f in
            if d < 1 / 2 then f else if 1 / 2 < d then f + 1 else if even f then f else f + 1)"

text \<open>The binary exponent of a positive rational: the \<open>e\<close> with \<open>2^e \<le> x < 2^(e+1)\<close>.\<close>

definition ilog2 :: "rat \<Rightarrow> int" where
  "ilog2 x = (let (p, q) = quotient_of x;
                  d = int (floorlog 2 (nat p)) - int (floorlog 2 (nat q))
              in if 2 powi d \<le> x then d else d - 1)"

text \<open>
  Rounding of a real number to binary64, round-to-nearest-even: 53 significant bits, the
  smallest unit \<open>2^-1074\<close> (subnormals), overflow to infinity from \<open>2^1024\<close> on.
\<close>

definition round_to_double :: "rat \<Rightarrow> jsnum" where
  "round_to_double x =
     (if x = 0 then Finite 0
      else let a = \<bar>x\<bar>;
               k = max (ilog2 a - 52) (- 1074);
               y = of_int (rne (a / 2 powi k)) * 2 powi k
           in if 2 powi 1024 \<le> y then (if 0 < x then PosInfinity else NegInfinity)
              else Finite (sgn x * y))"

text \<open>\<open>a / b\<close> on two non-negative integers (a counter and an array length).\<close>

definition js_div_nat :: "nat \<Rightarrow> nat \<Rightarrow> jsnum" where
  "js_div_nat a b =
     (if b = 0 then (if a = 0 then NaN else PosInfinity)
      else round_to_double (of_nat a / of_nat b))"

text \<open>\<open>x * c\<close> for a positive finite constant \<open>c\<close>.\<close>

definition js_mul_const :: "jsnum \<Rightarrow> rat \<Rightarrow> jsnum" where
  "js_mul_const x c = (case x of Finite r \<Rightarrow> round_to_double (r * c) | _ \<Rightarrow> x)"

text \<open>\<open>Math.round\<close>: the nearest integer, a tie going up.\<close>

definition Math_round :: "jsnum \<Rightarrow> jsnum" where
  "Math_round x = (case x of Finite r \<Rightarrow> Finite (of_int \<lfloor>r + 1 / 2\<rfloor>) | _ \<Rightarrow> x)"

subsection \<open>JSON values\<close>

text \<open>
  What \<open>JSON.parse\<close> and the body parser produce. The members of an object are its own
  properties in the order the engine keeps them; the parser builds them with \<open>obj_set\<close>, one
  member for each name. Reading a property takes the last member of that name. The value
  \<open>undefined\<close> of a missing property is \<open>None\<close> in \<open>json option\<close>.
\<close>

datatype json =
    JNull
  | JBool bool
  | JNum jsnum
  | JStr jstring
  | JArr "json list"
  | JObj "(jstring \<times> json) list"

text \<open>\<open>!v\<close> is \<open>\<not> truthy v\<close>.\<close>

fun truthy :: "json option \<Rightarrow> bool" where
  "truthy None = False"
| "truthy (Some JNull) = False"
| "truthy (Some (JBool b)) = b"
| "truthy (Some (JNum n)) = (n \<noteq> Finite 0 \<and> n \<noteq> NaN)"
| "truthy (Some (JStr s)) = (s \<noteq> [])"
| "truthy (Some (JArr xs)) = True"
| "truthy (Some (JObj ms)) = True"

text \<open>
  \<open>v.k\<close> for a property name that no prototype defines (\<open>quiz\<close>, \<open>word\<close>, \<open>question\<close>,
  \<open>options\<close>, \<open>correct\<close>, \<open>name\<close>, \<open>surname\<close>, \<open>answers\<close>, \<open>text\<close>), on a value that
  is not \<open>null\<close>. On \<open>null\<close> the access throws a TypeError: every caller tests for \<open>JNull\<close>
  before it reads a property.
\<close>

fun get_prop :: "json \<Rightarrow> jstring \<Rightarrow> json option" where
  "get_prop (JObj ms) k = map_of (rev ms) k"
| "get_prop v k = None"

text \<open>\<open>v.length\<close>\<close>

fun get_length :: "json \<Rightarrow> json option" where
  "get_length (JStr s) = Some (JNum (Finite (of_nat (length s))))"
| "get_length (JArr xs) = Some (JNum (Finite (of_nat (length xs))))"
| "get_length (JObj ms) = map_of (rev ms) (js ''length'')"
| "get_length v = None"

text \<open>\<open>v[i]\<close> for an index \<open>i\<close>, on a value that is not \<open>null\<close>.\<close>

fun get_index :: "json \<Rightarrow> nat \<Rightarrow> json option" where
  "get_index (JStr s) i = (if i < length s then Some (JStr [s ! i]) else None)"
| "get_index (JArr xs) i = (if i < length xs then Some (xs ! i) else None)"
| "get_index (JObj ms) i = map_of (rev ms) (show_nat i)"
| "get_index v i = None"

text \<open>
  \<open>a === b\<close>, and the comparison \<open>includes\<close> makes, between two values of which one was
  just read from parsed JSON. Arrays and objects compare by identity; every array or object
  node of parsed JSON is a fresh one, and the program compares nodes at different places
  only, so such a comparison is false.
\<close>

fun strict_eq :: "json option \<Rightarrow> json option \<Rightarrow> bool" where
  "strict_eq None None = True"
| "strict_eq (Some JNull) (Some JNull) = True"
| "strict_eq (Some (JBool a)) (Some (JBool b)) = (a = b)"
| "strict_eq (Some (JNum a)) (Some (JNum b)) = (a = b \<and> a \<noteq> NaN)"
| "strict_eq (Some (JStr a)) (Some (JStr b)) = (a = b)"
| "strict_eq a b = False"

text \<open>\<open>xs.includes(v)\<close> on an array: as \<open>===\<close>, but \<open>NaN\<close> is found.\<close>

definition same_value_zero :: "json option \<Rightarrow> json option \<Rightarrow> bool" where
  "same_value_zero a b \<longleftrightarrow> strict_eq a b \<or> (a = Some (JNum NaN) \<and> b = Some (JNum NaN))"

definition includes_arr :: "json list \<Rightarrow> json option \<Rightarrow> bool" where
  "includes_arr xs v \<longleftrightarrow> list_ex (\<lambda>x. same_value_zero (Some x) v) xs"

section \<open>The library functions the service calls\<close>

subsection \<open>JSON.parse\<close>

definition is_json_ws :: "jschar \<Rightarrow> bool" where
  "is_json_ws c \<longleftrightarrow> c = 0x20 \<or> c = 0x09 \<or> c = 0x0A \<or> c = 0x0D"

definition skip_ws :: "jstring \<Rightarrow> jstring" where
  "skip_ws s = dropWhile is_json_ws s"

definition is_digit :: "jschar \<Rightarrow> bool" where
  "is_digit c \<longleftrightarrow> 0x30 \<le> c \<and> c \<le> 0x39"

definition digit_val :: "jschar \<Rightarrow> nat" where
  "digit_val c = unat c - 48"

definition digits_val :: "jstring \<Rightarrow> nat" where
  "digits_val ds = foldl (\<lambda>a c. 10 * a + digit_val c) 0 ds"

definition hex_val :: "jschar \<Rightarrow> nat option" where
  "hex_val c =
     (if 0x30 \<le> c \<and> c \<le> 0x39 then Some (unat c - 0x30)
      else if 0x41 \<le> c \<and> c \<le> 0x46 then Some (unat c - 0x41 + 10)
      else if 0x61 \<le> c \<and> c \<le> 0x66 then Some (unat c - 0x61 + 10)
      else None)"

definition hex4 :: "jschar \<Rightarrow> jschar \<Rightarrow> jschar \<Rightarrow> jschar \<Rightarrow> jschar option" where
  "hex4 a b c d =
     (case (hex_val a, hex_val b, hex_val c, hex_val d) of
        (Some x, Some y, Some z, Some w) \<Rightarrow> Some (of_nat (((x * 16 + y) * 16 + z) * 16 + w))
      | _ \<Rightarrow> None)"

text \<open>The character a one-letter escape stands for.\<close>

definition unescape :: "jschar \<Rightarrow> jschar option" where
  "unescape e =
     (if e = 0x22 then Some 0x22 else if e = 0x5C then Some 0x5C
      else if e = 0x2F then Some 0x2F else if e = 0x62 then Some 0x08
      else if e = 0x66 then Some 0x0C else if e = 0x6E then Some 0x0A
      else if e = 0x72 then Some 0x0D else if e = 0x74 then Some 0x09
      else None)"

definition cons_result :: "jschar \<Rightarrow> (jstring \<times> jstring) option \<Rightarrow> (jstring \<times> jstring) option" where
  "cons_result c r = (case r of None \<Rightarrow> None | Some (t, rest) \<Rightarrow> Some (c # t, rest))"

text \<open>A string literal after its opening quote: the string it denotes and the text after it.\<close>

fun parse_string_body :: "jstring \<Rightarrow> (jstring \<times> jstring) option" where
  "parse_string_body [] = None"
| "parse_string_body (c # s) =
     (if c = 0x22 then Some ([], s)
      else if c = 0x5C then
        (case s of
           [] \<Rightarrow> None
         | e # s1 \<Rightarrow>
             if e = 0x75 then
               (case s1 of
                  h1 # h2 # h3 # h4 # s2 \<Rightarrow>
                    (case hex4 h1 h2 h3 h4 of
                       None \<Rightarrow> None
                     | Some u \<Rightarrow> cons_result u (parse_string_body s2))
                | _ \<Rightarrow> None)
             else
               (case unescape e of
                  None \<Rightarrow> None
                | Some d \<Rightarrow> cons_result d (parse_string_body s1)))
      else if c < 0x20 then None
      else cons_result c (parse_string_body s))"

definition parse_frac :: "jstring \<Rightarrow> (jstring \<times> jstring) option" where
  "parse_frac s =
     (case s of
        [] \<Rightarrow> Some ([], s)
      | c # r \<Rightarrow>
          if c = 0x2E then
            (if takeWhile is_digit r = [] then None
             else Some (takeWhile is_digit r, dropWhile is_digit r))
          else Some ([], s))"

definition parse_exp :: "jstring \<Rightarrow> (int \<times> jstring) option" where
  "parse_exp s =
     (case s of
        [] \<Rightarrow> Some (0, s)
      | c # r \<Rightarrow>
          if c = 0x65 \<or> c = 0x45 then
            (let (sg, r1) =
               (case r of
                  [] \<Rightarrow> (1, r)
                | d # r' \<Rightarrow> if d = 0x2B then (1, r') else if d = 0x2D then (- 1, r') else (1, r))
             in if takeWhile is_digit r1 = [] then None
                else Some (sg * int (digits_val (takeWhile is_digit r1)), dropWhile is_digit r1))
          else Some (0, s))"

definition parse_int_part :: "jstring \<Rightarrow> (jstring \<times> jstring) option" where
  "parse_int_part s =
     (case s of
        [] \<Rightarrow> None
      | c # r \<Rightarrow>
          if c = 0x30 then Some ([c], r)
          else if is_digit c then Some (takeWhile is_digit s, dropWhile is_digit s)
          else None)"

definition parse_number :: "jstring \<Rightarrow> (jsnum \<times> jstring) option" where
  "parse_number s =
     (let (neg, s1) = (case s of [] \<Rightarrow> (False, s) | c # r \<Rightarrow> if c = 0x2D then (True, r) else (False, s))
      in case parse_int_part s1 of
           None \<Rightarrow> None
         | Some (ip, s2) \<Rightarrow>
             (case parse_frac s2 of
                None \<Rightarrow> None
              | Some (fp, s3) \<Rightarrow>
                  (case parse_exp s3 of
                     None \<Rightarrow> None
                   | Some (ex, s4) \<Rightarrow>
                       Some (round_to_double
                               ((if neg then - 1 else 1) * of_nat (digits_val (ip @ fp))
                                 * 10 powi (ex - int (length fp))), s4))))"

text \<open>
  Defining the property \<open>k\<close> of an object under construction. A name the object has already
  keeps its place and takes the new value. A new name that is an array index (a decimal
  numeral without leading zeros, below \<open>2^32 - 1\<close>) goes among the array indices, which come
  first in ascending order; any other new name goes to the end.
\<close>

definition array_index :: "jstring \<Rightarrow> nat option" where
  "array_index k =
     (if k = [] \<or> \<not> list_all is_digit k then None
      else if hd k = 0x30 \<and> k \<noteq> [0x30] then None
      else if digits_val k < 2 ^ 32 - 1 then Some (digits_val k)
      else None)"

definition index_below :: "nat \<Rightarrow> jstring \<times> json \<Rightarrow> bool" where
  "index_below i m = (case array_index (fst m) of None \<Rightarrow> False | Some j \<Rightarrow> j < i)"

definition obj_set :: "(jstring \<times> json) list \<Rightarrow> jstring \<Rightarrow> json \<Rightarrow> (jstring \<times> json) list" where
  "obj_set ms k v =
     (case map_of ms k of
        Some old \<Rightarrow> map (\<lambda>m. if fst m = k then (k, v) else m) ms
      | None \<Rightarrow>
          (case array_index k of
             None \<Rightarrow> ms @ [(k, v)]
           | Some i \<Rightarrow> takeWhile (index_below i) ms @ [(k, v)] @ dropWhile (index_below i) ms))"

text \<open>
  A value, the elements of an array after \<open>[\<close>, the members of an object after \<open>{\<close>. The
  first argument bounds the number of nested calls; \<open>JSON_parse\<close> passes a bound that the
  text cannot exhaust.
\<close>

fun parse_value :: "nat \<Rightarrow> jstring \<Rightarrow> (json \<times> jstring) option"
  and parse_elements :: "nat \<Rightarrow> json list \<Rightarrow> jstring \<Rightarrow> (json \<times> jstring) option"
  and parse_members :: "nat \<Rightarrow> (jstring \<times> json) list \<Rightarrow> jstring \<Rightarrow> (json \<times> jstring) option"
where
  "parse_value 0 s = None"
| "parse_value (Suc n) s =
     (case skip_ws s of
        [] \<Rightarrow> None
      | c # r \<Rightarrow>
          if c = 0x7B then
            (case skip_ws r of
               [] \<Rightarrow> None
             | d # r' \<Rightarrow> if d = 0x7D then Some (JObj [], r') else parse_members n [] r)
          else if c = 0x5B then
            (case skip_ws r of
               [] \<Rightarrow> None
             | d # r' \<Rightarrow> if d = 0x5D then Some (JArr [], r') else parse_elements n [] r)
          else if c = 0x22 then
            (case parse_string_body r of None \<Rightarrow> None | Some (t, r') \<Rightarrow> Some (JStr t, r'))
          else if starts_with (js ''true'') (c # r) then Some (JBool True, drop 4 (c # r))
          else if starts_with (js ''false'') (c # r) then Some (JBool False, drop 5 (c # r))
          else if starts_with (js ''null'') (c # r) then Some (JNull, drop 4 (c # r))
          else
            (case parse_number (c # r) of None \<Rightarrow> None | Some (x, r') \<Rightarrow> Some (JNum x, r')))"
| "parse_elements 0 acc s = None"
| "parse_elements (Suc n) acc s =
     (case parse_value n s of
        None \<Rightarrow> None
      | Some (v, r) \<Rightarrow>
          (case skip_ws r of
             [] \<Rightarrow> None
           | c # r' \<Rightarrow>
               if c = 0x2C then parse_elements n (acc @ [v]) r'
               else if c = 0x5D then Some (JArr (acc @ [v]), r')
               else None))"
| "parse_members 0 acc s = None"
| "parse_members (Suc n) acc s =
     (case skip_ws s of
        [] \<Rightarrow> None
      | c # r \<Rightarrow>
          if c = 0x22 then
            (case parse_string_body r of
               None \<Rightarrow> None
             | Some (k, r1) \<Rightarrow>
                 (case skip_ws r1 of
                    [] \<Rightarrow> None
                  | c1 # r2 \<Rightarrow>
                      if c1 = 0x3A then
                        (case parse_value n r2 of
                           None \<Rightarrow> None
                         | Some (v, r3) \<Rightarrow>
                             (case skip_ws r3 of
                                [] \<Rightarrow> None
                              | c3 # r4 \<Rightarrow>
                                  if c3 = 0x2C then parse_members n (obj_set acc k v) r4
                                  else if c3 = 0x7D then Some (JObj (obj_set acc k v), r4)
                                  else None))
                      else None))
          else None)"

text \<open>\<open>JSON.parse(s)\<close>: \<open>None\<close> is the SyntaxError.\<close>

definition JSON_parse :: "jstring \<Rightarrow> json option" where
  "JSON_parse s =
     (case parse_value (2 * length s + 2) s of
        None \<Rightarrow> None
      | Some (v, r) \<Rightarrow> if skip_ws r = [] then Some v else None)"


subsection \<open>String.prototype.match with the two patterns of the service\<close>

text \<open>
  \<open>content.match(re)\<close> without the \<open>g\<close> flag tries the pattern at each position from the
  left and returns the first match; \<open>None\<close> is \<open>null\<close>. Only element \<open>[0]\<close> of the result,
  the whole matched text, is read by the service.
\<close>

fun match_first :: "(jstring \<Rightarrow> jstring option) \<Rightarrow> jstring \<Rightarrow> jstring option" where
  "match_first m [] = m []"
| "match_first m (c # s) = (case m (c # s) of Some r \<Rightarrow> Some r | None \<Rightarrow> match_first m s)"

definition fence :: jstring where
  "fence = js ''```''"

definition fence_json :: jstring where
  "fence_json = js ''```json''"

text \<open>
  The tail \<open>([\s\S]*?)\s*```\<close> of the first pattern: the lazy group takes the fewest
  characters after which white space and the closing fence follow. The result is what the
  tail matches.
\<close>

fun lazy_close :: "jstring \<Rightarrow> jstring option" where
  "lazy_close [] = None"
| "lazy_close (c # r) =
     (if starts_with fence (dropWhile is_js_space (c # r))
      then Some (takeWhile is_js_space (c # r) @ fence)
      else map_option ((#) c) (lazy_close r))"

text \<open>
  The pattern \<open>/```json\s*([\s\S]*?)\s*```/\<close> at one position. The greedy \<open>\s*\<close> takes all
  the white space; giving some of it back to the group cannot produce a match that taking
  all of it does not, since a fence does not start with white space.
\<close>

definition fence_match_at :: "jstring \<Rightarrow> jstring option" where
  "fence_match_at s =
     (if starts_with fence_json s then
        map_option (\<lambda>m. fence_json @ takeWhile is_js_space (drop 7 s) @ m)
          (lazy_close (dropWhile is_js_space (drop 7 s)))
      else None)"

text \<open>The pattern \<open>/{[\s\S]*}/\<close> at one position: from a \<open>{\<close> to the last \<open>}\<close> after it.\<close>

definition brace_match_at :: "jstring \<Rightarrow> jstring option" where
  "brace_match_at s =
     (case s of
        [] \<Rightarrow> None
      | c # r \<Rightarrow>
          if c = 0x7B \<and> 0x7D \<in> set r
          then Some (c # rev (dropWhile (\<lambda>x. x \<noteq> 0x7D) (rev r)))
          else None)"

subsection \<open>What the engine and the environment supply\<close>

text \<open>
  The texts of the errors the JavaScript engine throws, and its rendering of numbers, are
  the engine's own; the service only passes them on.
\<close>

record engine =
  syntax_error_message :: "jstring \<Rightarrow> jstring"
  null_property_message :: "jstring \<Rightarrow> jstring"
  not_a_function_message :: "jstring \<Rightarrow> jstring"
  cannot_convert_message :: jstring
  number_to_string :: "jsnum \<Rightarrow> jstring"

text \<open>
  An engine for evaluating the service on concrete inputs. The three TypeError texts are those
  of V8 (Node.js 16.9 and later). The text of a SyntaxError depends on the input and on the
  version, and the rendering of a number is an algorithm of its own: a fixed text stands for
  each.
\<close>

definition node_engine :: engine where
  "node_engine =
     \<lparr> syntax_error_message = (\<lambda>s. js ''Unexpected token''),
       null_property_message =
         (\<lambda>k. js ''Cannot read properties of null (reading '' @ [0x27] @ k @ [0x27] @ js '')''),
       not_a_function_message = (\<lambda>f. f @ js '' is not a function''),
       cannot_convert_message = js ''Cannot convert object to primitive value'',
       number_to_string = (\<lambda>n. js ''(number)'') \<rparr>"

record environment =
  OPENROUTER_API_KEY :: "jstring option"

text \<open>
  An error object: its message and, on the errors of the HTTP client, the response (status
  and \<open>data.error?.message\<close>), whether a request was sent, and the error code.
\<close>

record js_error =
  message :: jstring
  response :: "(nat \<times> jstring option) option"
  request :: bool
  code :: "jstring option"

definition Error :: "jstring \<Rightarrow> js_error" where
  "Error m = \<lparr> message = m, response = None, request = False, code = None \<rparr>"

text \<open>
  The outcome of the one call to the provider: it resolves, with
  \<open>response.data.choices?.[0]?.message?.content\<close> (a string, or \<open>None\<close> when there is none),
  or it rejects with an error.
\<close>

datatype api_outcome = Resolved "jstring option" | Rejected js_error

definition truthy_str :: "jstring option \<Rightarrow> bool" where
  "truthy_str s \<longleftrightarrow> (case s of None \<Rightarrow> False | Some t \<Rightarrow> t \<noteq> [])"

fun join_comma :: "jstring list \<Rightarrow> jstring" where
  "join_comma [] = []"
| "join_comma [x] = x"
| "join_comma (x # y # ys) = x @ [0x2C] @ join_comma (y # ys)"

text \<open>
  Whether the conversion of a value to a string, which a template literal makes, returns.
  An object is converted by its \<open>toString\<close>: the inherited one returns
  \<open>[object Object]\<close>, but an own member of that name, which in parsed JSON is never a
  function, hides it, and the conversion throws a TypeError. An array is converted by
  \<open>join\<close>, which converts every element that is not \<open>null\<close>.
\<close>

fun stringifiable :: "json \<Rightarrow> bool" where
  "stringifiable (JArr xs) = list_all (\<lambda>x. x = JNull \<or> stringifiable x) xs"
| "stringifiable (JObj ms) = (map_of (rev ms) (js ''toString'') = None)"
| "stringifiable v = True"

text \<open>The same for a value that may be \<open>undefined\<close>, which converts to \<open>undefined\<close>.\<close>

fun renders :: "json option \<Rightarrow> bool" where
  "renders None = True"
| "renders (Some v) = stringifiable v"

text \<open>The string a template literal puts for a value; \<open>None\<close> is the TypeError.\<close>

fun to_string :: "engine \<Rightarrow> json \<Rightarrow> jstring option" where
  "to_string eng JNull = Some (js ''null'')"
| "to_string eng (JBool b) = Some (if b then js ''true'' else js ''false'')"
| "to_string eng (JNum n) = Some (number_to_string eng n)"
| "to_string eng (JStr s) = Some s"
| "to_string eng (JArr xs) =
     (if stringifiable (JArr xs)
      then Some (join_comma (map (\<lambda>x. if x = JNull then [] else the (to_string eng x)) xs))
      else None)"
| "to_string eng (JObj ms) =
     (if stringifiable (JObj ms) then Some (js ''[object Object]'') else None)"

section \<open>The service: generateQuizFromText\<close>

text \<open>The three stages of recovering an object from the model's text (lines 97 to 126).\<close>

definition parse_content :: "engine \<Rightarrow> jstring \<Rightarrow> js_error + json" where
  "parse_content eng content =
     (case JSON_parse content of
        Some quizObj \<Rightarrow> Inr quizObj
      | None \<Rightarrow>
          (let jsonMatch =
             (case match_first fence_match_at content of
                Some m \<Rightarrow> Some m
              | None \<Rightarrow> match_first brace_match_at content)
           in case jsonMatch of
                None \<Rightarrow>
                  Inl (Error (js ''No JSON object found in model response. Raw content: ''
                              @ substring0 200 content))
              | Some m \<Rightarrow>
                  (case JSON_parse m of
                     Some quizObj \<Rightarrow> Inr quizObj
                   | None \<Rightarrow>
                       Inl (Error (js ''Failed to parse extracted JSON: ''
                                   @ syntax_error_message eng m)))))"

text \<open>
  The loop over the questions (lines 143 to 161), from question \<open>i\<close> on: the message of the
  error it throws, or \<open>None\<close> when it runs to the end. The message of line 159 renders
  \<open>q.correct\<close>; when that conversion throws, its TypeError is the error.
\<close>

fun validate_questions :: "engine \<Rightarrow> nat \<Rightarrow> json list \<Rightarrow> jstring option" where
  "validate_questions eng i [] = None"
| "validate_questions eng i (q # qs) =
     (if q = JNull then Some (null_property_message eng (js ''word''))
      else if \<not> truthy (get_prop q (js ''word'')) \<or> \<not> truthy (get_prop q (js ''question''))
              \<or> \<not> truthy (get_prop q (js ''options'')) \<or> \<not> truthy (get_prop q (js ''correct''))
      then Some (js ''Question '' @ show_nat (i + 1) @ js '' is missing required fields'')
      else
        (case get_prop q (js ''options'') of
           Some (JArr opts) \<Rightarrow>
             if length opts \<noteq> 4
             then Some (js ''Question '' @ show_nat (i + 1) @ js '' must have exactly 4 options'')
             else if \<not> includes_arr opts (get_prop q (js ''correct''))
             then
               (case to_string eng (the (get_prop q (js ''correct''))) of
                  None \<Rightarrow> Some (cannot_convert_message eng)
                | Some c \<Rightarrow>
                    Some (js ''Question '' @ show_nat (i + 1) @ js '' correct answer \"'' @ c
                          @ js ''\" not found in options''))
             else validate_questions eng (i + 1) qs
         | _ \<Rightarrow> Some (js ''Question '' @ show_nat (i + 1) @ js '' must have exactly 4 options'')))"

text \<open>The checks on the parsed object (lines 131 to 164).\<close>

definition validate_quiz :: "engine \<Rightarrow> json \<Rightarrow> js_error + json list" where
  "validate_quiz eng quizObj =
     (if quizObj = JNull then Inl (Error (null_property_message eng (js ''quiz'')))
      else
        (case get_prop quizObj (js ''quiz'') of
           Some (JArr quiz) \<Rightarrow>
             if quiz = [] then Inl (Error (js ''Quiz array is empty''))
             else
               (case validate_questions eng 0 quiz of
                  Some m \<Rightarrow> Inl (Error m)
                | None \<Rightarrow> Inr quiz)
         | _ \<Rightarrow> Inl (Error (js ''Invalid quiz format returned by model - missing quiz array''))))"

text \<open>The body of the \<open>try\<close> once the call has settled (lines 85 to 164).\<close>

definition try_block :: "engine \<Rightarrow> api_outcome \<Rightarrow> js_error + json list" where
  "try_block eng outcome =
     (case outcome of
        Rejected err \<Rightarrow> Inl err
      | Resolved content \<Rightarrow>
          if \<not> truthy_str content then Inl (Error (js ''No content received from AI model''))
          else
            (case parse_content eng (the content) of
               Inl err \<Rightarrow> Inl err
             | Inr quizObj \<Rightarrow> validate_quiz eng quizObj))"

text \<open>The \<open>catch\<close> (lines 166 to 199): the message of the error it throws.\<close>

definition known_error :: "js_error \<Rightarrow> jstring" where
  "known_error err =
     (if code err = Some (js ''ECONNABORTED'') then js ''API request timed out. Please try again later.''
      else if includes_str (message err) (js ''API key'') then message err
      else if includes_str (message err) (js ''JSON'') then message err
      else js ''Failed to generate quiz: '' @ message err)"

definition catch_block :: "js_error \<Rightarrow> jstring" where
  "catch_block err =
     (case response err of
        Some (status, data_error_message) \<Rightarrow>
          if status = 401 then js ''API authentication failed. Please check your OPENROUTER_API_KEY.''
          else if status = 429 then js ''API rate limit exceeded. Please try again later.''
          else if status = 400 then
            js ''API request invalid: ''
            @ (if truthy_str data_error_message then the data_error_message else js ''Bad request'')
          else known_error err
      | None \<Rightarrow>
          if request err
          then js ''No response received from AI service. Please check your internet connection.''
          else known_error err)"

text \<open>
  \<open>text ? text.length : 0\<close>, the value that line 6 of the service and line 212 of the
  server render for the log.
\<close>

definition length_or_zero :: "json option \<Rightarrow> json option" where
  "length_or_zero v = (if truthy v then get_length (the v) else Some (JNum (Finite 0)))"

text \<open>
  \<open>generateQuizFromText(text)\<close>: \<open>Inl\<close> carries the message of the error thrown, \<open>Inr\<close> the
  quiz returned. The provider is called only after the two checks at the top.
\<close>

definition generateQuizFromText ::
    "engine \<Rightarrow> environment \<Rightarrow> json option \<Rightarrow> api_outcome \<Rightarrow> jstring + json list" where
  "generateQuizFromText eng env text outcome =
     (if \<not> renders (length_or_zero text) then Inl (cannot_convert_message eng)
      else case text of
        Some (JStr t) \<Rightarrow>
          if t = [] \<or> length (trim t) < 20
          then Inl (js ''Input text must be a meaningful string (at least 20 characters)'')
          else if \<not> truthy_str (OPENROUTER_API_KEY env)
          then Inl (js ''API key is not configured. Please set OPENROUTER_API_KEY in your .env file.'')
          else
            (case try_block eng outcome of
               Inr quiz \<Rightarrow> Inr quiz
             | Inl err \<Rightarrow> Inl (catch_block err))
      | _ \<Rightarrow> Inl (js ''Input text must be a meaningful string (at least 20 characters)''))"


section \<open>The server: state and the two handlers\<close>

text \<open>One entry of \<open>wrongAnswers\<close>, and one of \<open>detailedResults\<close>, which has \<open>isCorrect\<close> too.\<close>

record wrong_answer =
  questionNumber :: nat
  question :: "json option"
  word :: "json option"
  correctAnswer :: "json option"
  userAnswer :: json
  options :: "json option"

record detailed_result = wrong_answer +
  isCorrect :: bool

record result_record =
  name :: json
  surname :: json
  score :: nat
  total :: nat
  percentage :: jsnum
  date :: jstring
  detailedResults :: "detailed_result list"

text \<open>The two module variables; \<open>None\<close> is the \<open>null\<close> that \<open>currentQuiz\<close> starts with.\<close>

record server_state =
  currentQuiz :: "json list option"
  quizResults :: "result_record list"

definition initial_state :: server_state where
  "initial_state = \<lparr> currentQuiz = None, quizResults = [] \<rparr>"

datatype reply_body =
    ErrorBody jstring
  | InternalServerError
  | QuizGenerated nat
  | QuizSubmitted nat nat jsnum "wrong_answer list"

datatype reply = Reply nat reply_body

fun status :: "reply \<Rightarrow> nat" where
  "status (Reply c b) = c"

subsection \<open>POST /api/admin/quiz\<close>

text \<open>
  The handler behind \<open>requireAdmin\<close> (lines 143 to 190). \<open>isAdmin\<close> is the flag of the
  caller's session, \<open>body\<close> the parsed request body, \<open>outcome\<close> what the provider does if it
  is called. Line 169 renders \<open>text.length\<close>, and a truthy \<open>text\<close> that is not a string has
  no \<open>substring\<close> for line 170: either TypeError is caught by the handler's own \<open>catch\<close>.
\<close>

definition admin_quiz ::
    "engine \<Rightarrow> environment \<Rightarrow> bool \<Rightarrow> json \<Rightarrow> api_outcome \<Rightarrow> server_state
      \<Rightarrow> server_state \<times> reply" where
  "admin_quiz eng env isAdmin body outcome st =
     (if \<not> isAdmin then (st, Reply 403 (ErrorBody (js ''Forbidden - Admin access required'')))
      else if \<not> truthy (get_prop body (js ''text''))
      then (st, Reply 400 (ErrorBody (js ''Text is required'')))
      else
        (case get_prop body (js ''text'') of
           Some (JStr t) \<Rightarrow>
             (case generateQuizFromText eng env (Some (JStr t)) outcome of
                Inl m \<Rightarrow> (st, Reply 500 (ErrorBody m))
              | Inr quiz \<Rightarrow>
                  (st \<lparr> currentQuiz := Some quiz, quizResults := [] \<rparr>,
                   Reply 200 (QuizGenerated (length quiz))))
         | _ \<Rightarrow>
             if \<not> renders (get_length (the (get_prop body (js ''text''))))
             then (st, Reply 500 (ErrorBody (cannot_convert_message eng)))
             else (st, Reply 500 (ErrorBody (not_a_function_message eng (js ''text.substring''))))))"

subsection \<open>POST /api/quiz/submit\<close>

text \<open>\<open>v || 'NOT PROVIDED'\<close>, the value that lines 210 and 211 render for the log.\<close>

definition or_not_provided :: "json option \<Rightarrow> json" where
  "or_not_provided v = (if truthy v then the v else JStr (js ''NOT PROVIDED''))"

definition no_answer :: json where
  "no_answer = JStr (js ''No answer'')"

text \<open>\<open>answers[i] || 'No answer'\<close>\<close>

definition answer_or_default :: "json option \<Rightarrow> json" where
  "answer_or_default a = (if truthy a then the a else no_answer)"

definition wrong_entry :: "json \<Rightarrow> nat \<Rightarrow> json \<Rightarrow> wrong_answer" where
  "wrong_entry answers i q =
     \<lparr> questionNumber = i + 1,
       question = get_prop q (js ''question''),
       word = get_prop q (js ''word''),
       correctAnswer = get_prop q (js ''correct''),
       userAnswer = answer_or_default (get_index answers i),
       options = get_prop q (js ''options'') \<rparr>"

definition detailed_entry :: "json \<Rightarrow> nat \<Rightarrow> json \<Rightarrow> bool \<Rightarrow> detailed_result" where
  "detailed_entry answers i q c =
     \<lparr> questionNumber = i + 1,
       question = get_prop q (js ''question''),
       word = get_prop q (js ''word''),
       correctAnswer = get_prop q (js ''correct''),
       userAnswer = answer_or_default (get_index answers i),
       options = get_prop q (js ''options''),
       isCorrect = c \<rparr>"

text \<open>
  The \<open>forEach\<close> of lines 234 to 261 from question \<open>i\<close> on, threading \<open>score\<close>,
  \<open>wrongAnswers\<close> and \<open>detailedResults\<close>. A question that is \<open>null\<close> has no \<open>correct\<close> to
  read, and for a wrong answer line 240 renders \<open>answers[i]\<close> and \<open>q.correct\<close>: a TypeError
  is \<open>None\<close>.
\<close>

fun forEach_question ::
    "json \<Rightarrow> nat \<Rightarrow> json list \<Rightarrow> nat \<times> wrong_answer list \<times> detailed_result list
      \<Rightarrow> (nat \<times> wrong_answer list \<times> detailed_result list) option" where
  "forEach_question answers i [] acc = Some acc"
| "forEach_question answers i (q # qs) (sc, wrongAnswers, detailed) =
     (if q = JNull then None
      else if strict_eq (get_index answers i) (get_prop q (js ''correct''))
      then forEach_question answers (i + 1) qs
             (sc + 1, wrongAnswers, detailed @ [detailed_entry answers i q True])
      else if \<not> renders (get_index answers i) \<or> \<not> renders (get_prop q (js ''correct''))
      then None
      else forEach_question answers (i + 1) qs
             (sc, wrongAnswers @ [wrong_entry answers i q],
              detailed @ [detailed_entry answers i q False]))"

text \<open>\<open>Math.round((score / currentQuiz.length) * 100)\<close>\<close>

definition percentage_of :: "nat \<Rightarrow> nat \<Rightarrow> jsnum" where
  "percentage_of sc n = Math_round (js_mul_const (js_div_nat sc n) 100)"

text \<open>
  The handler (lines 205 to 288). \<open>now\<close> is \<open>new Date().toISOString()\<close>. Lines 210 to 212
  render \<open>name\<close>, \<open>surname\<close> and \<open>answers.length\<close> for the log before any guard runs. An
  error thrown by the handler, there or in the loop, goes to the error middleware of lines
  301 to 307, which answers 500; the record is appended after the loop only.
\<close>

definition quiz_submit :: "jstring \<Rightarrow> json \<Rightarrow> server_state \<Rightarrow> server_state \<times> reply" where
  "quiz_submit now body st =
     (if \<not> stringifiable (or_not_provided (get_prop body (js ''name'')))
         \<or> \<not> stringifiable (or_not_provided (get_prop body (js ''surname'')))
         \<or> \<not> renders (length_or_zero (get_prop body (js ''answers'')))
      then (st, Reply 500 InternalServerError)
      else if \<not> truthy (get_prop body (js ''name'')) \<or> \<not> truthy (get_prop body (js ''surname''))
         \<or> \<not> truthy (get_prop body (js ''answers''))
      then (st, Reply 400 (ErrorBody (js ''Name, surname, and answers required'')))
      else
        (case currentQuiz st of
           None \<Rightarrow> (st, Reply 400 (ErrorBody (js ''No quiz available'')))
         | Some quiz \<Rightarrow>
             let answers = the (get_prop body (js ''answers'')) in
             if \<not> strict_eq (get_length answers) (Some (JNum (Finite (of_nat (length quiz)))))
             then (st, Reply 400 (ErrorBody (js ''Answer count does not match question count'')))
             else
               (case forEach_question answers 0 quiz (0, [], []) of
                  None \<Rightarrow> (st, Reply 500 InternalServerError)
                | Some (sc, wrongAnswers, detailed) \<Rightarrow>
                    (st \<lparr> quizResults := quizResults st @
                           [\<lparr> name = the (get_prop body (js ''name'')),
                              surname = the (get_prop body (js ''surname'')),
                              score = sc,
                              total = length quiz,
                              percentage = percentage_of sc (length quiz),
                              date = now,
                              detailedResults = detailed \<rparr>] \<rparr>,
                     Reply 200 (QuizSubmitted sc (length quiz)
                                  (percentage_of sc (length quiz)) wrongAnswers)))))"


section \<open>Notions the properties are stated with\<close>

text \<open>
  What the loop of the validator lets through for one question: the four fields truthy, the
  options an array of four entries, the correct value found among them.
\<close>

definition valid_question :: "json \<Rightarrow> bool" where
  "valid_question q \<longleftrightarrow>
     q \<noteq> JNull \<and> truthy (get_prop q (js ''word'')) \<and> truthy (get_prop q (js ''question''))
     \<and> truthy (get_prop q (js ''options'')) \<and> truthy (get_prop q (js ''correct''))
     \<and> (case get_prop q (js ''options'') of
           Some (JArr opts) \<Rightarrow> length opts = 4 \<and> includes_arr opts (get_prop q (js ''correct''))
         | _ \<Rightarrow> False)"

text \<open>The states the two handlers can reach: no quiz, or one the validator accepted.\<close>

definition state_ok :: "server_state \<Rightarrow> bool" where
  "state_ok st \<longleftrightarrow>
     (case currentQuiz st of
        None \<Rightarrow> True
      | Some quiz \<Rightarrow> quiz \<noteq> [] \<and> list_all valid_question quiz)"

text \<open>\<open>answers[i] === q.correct\<close>\<close>

definition answer_correct :: "json \<Rightarrow> nat \<Rightarrow> json \<Rightarrow> bool" where
  "answer_correct answers i q \<longleftrightarrow> strict_eq (get_index answers i) (get_prop q (js ''correct''))"

text \<open>
  The results of the \<open>forEach\<close> in closed form: the number of correct answers, the list of
  wrong answers, the detailed results, and the record the handler appends.
\<close>

definition correct_count :: "json \<Rightarrow> json list \<Rightarrow> nat" where
  "correct_count answers quiz =
     length (filter (\<lambda>(j, q). answer_correct answers j q) (enumerate 0 quiz))"

definition wrong_answers_of :: "json \<Rightarrow> json list \<Rightarrow> wrong_answer list" where
  "wrong_answers_of answers quiz =
     map (\<lambda>(j, q). wrong_entry answers j q)
       (filter (\<lambda>(j, q). \<not> answer_correct answers j q) (enumerate 0 quiz))"

definition detailed_results_of :: "json \<Rightarrow> json list \<Rightarrow> detailed_result list" where
  "detailed_results_of answers quiz =
     map (\<lambda>(j, q). detailed_entry answers j q (answer_correct answers j q)) (enumerate 0 quiz)"

definition result_of :: "jstring \<Rightarrow> json \<Rightarrow> json list \<Rightarrow> json \<Rightarrow> result_record" where
  "result_of now body quiz answers =
     \<lparr> name = the (get_prop body (js ''name'')),
       surname = the (get_prop body (js ''surname'')),
       score = correct_count answers quiz,
       total = length quiz,
       percentage = percentage_of (correct_count answers quiz) (length quiz),
       date = now,
       detailedResults = detailed_results_of answers quiz \<rparr>"

text \<open>The three guards of the submit handler.\<close>

definition rejected :: "json \<Rightarrow> server_state \<Rightarrow> bool" where
  "rejected body st \<longleftrightarrow>
     \<not> truthy (get_prop body (js ''name'')) \<or> \<not> truthy (get_prop body (js ''surname''))
     \<or> \<not> truthy (get_prop body (js ''answers''))
     \<or> (case currentQuiz st of
           None \<Rightarrow> True
         | Some quiz \<Rightarrow>
             \<not> strict_eq (get_length (the (get_prop body (js ''answers''))))
                  (Some (JNum (Finite (of_nat (length quiz))))))"

text \<open>Rounding of an exact value to the nearest integer, a half going up.\<close>

definition round_half_up :: "rat \<Rightarrow> int" where
  "round_half_up x = \<lfloor>x + 1 / 2\<rfloor>"

fun reply_score :: "reply \<Rightarrow> nat option" where
  "reply_score (Reply c (QuizSubmitted sc n p w)) = Some sc"
| "reply_score r = None"

fun reply_percentage :: "reply \<Rightarrow> jsnum option" where
  "reply_percentage (Reply c (QuizSubmitted sc n p w)) = Some p"
| "reply_percentage r = None"

subsection \<open>Concrete inputs\<close>

definition sample_question :: json where
  "sample_question =
     JObj [(js ''word'', JStr (js ''ex'')), (js ''question'', JStr (js ''Q'')),
           (js ''options'', JArr [JStr (js ''a''), JStr (js ''b''), JStr (js ''c''), JStr (js ''d'')]),
           (js ''correct'', JStr (js ''b''))]"

definition sample_quiz_text :: jstring where
  "sample_quiz_text =
     js ''{\"quiz\":[{\"word\":\"ex\",\"question\":\"Q\",\"options\":[\"a\",\"b\",\"c\",\"d\"],\"correct\":\"b\"}]}''"

text \<open>The same text as the model often wraps it: in a fenced block labeled \<open>json\<close>.\<close>

definition fenced_text :: jstring where
  "fenced_text = js ''```json'' @ [0x0A] @ sample_quiz_text @ [0x0A] @ js ''```''"

definition noise_text :: jstring where
  "noise_text = js ''noise {\"quiz\":[]} trailing''"

definition null_quiz_text :: jstring where
  "null_quiz_text = js ''{\"quiz\":[null]}''"

text \<open>A question whose options repeat and are not all strings.\<close>

definition loose_question :: json where
  "loose_question =
     JObj [(js ''word'', JStr (js ''big'')), (js ''question'', JStr (js ''Q'')),
           (js ''options'', JArr [JStr (js ''large''), JStr (js ''large''), JNum (Finite 1),
                                  JNum (Finite 1)]),
           (js ''correct'', JStr (js ''large''))]"

definition loose_quiz_text :: jstring where
  "loose_quiz_text =
     js ''{\"quiz\":[{\"word\":\"big\",\"question\":\"Q\",\"options\":[\"large\",\"large\",1,1],\"correct\":\"large\"}]}''"

definition sample_env :: environment where
  "sample_env = \<lparr> OPENROUTER_API_KEY = Some (js ''sk-or-v1-0000'') \<rparr>"

definition sample_input :: jstring where
  "sample_input = js ''The ubiquitous fox was remarkably perspicacious.''"

definition admin_body :: json where
  "admin_body = JObj [(js ''text'', JStr sample_input)]"

definition timestamp :: jstring where
  "timestamp = js ''2025-01-01T00:00:00.000Z''"

definition sample_result :: result_record where
  "sample_result =
     \<lparr> name = JStr (js ''Ann''), surname = JStr (js ''Lee''), score = 0, total = 1,
       percentage = Finite 0, date = timestamp, detailedResults = [] \<rparr>"

definition sample_state :: server_state where
  "sample_state = \<lparr> currentQuiz = Some [sample_question], quizResults = [sample_result] \<rparr>"

definition sample_body :: json where
  "sample_body =
     JObj [(js ''name'', JStr (js ''Ann'')), (js ''surname'', JStr (js ''Lee'')),
           (js ''answers'', JArr [JStr (js ''b'')])]"

definition empty_name_body :: json where
  "empty_name_body =
     JObj [(js ''name'', JStr []), (js ''surname'', JStr (js ''Lee'')),
           (js ''answers'', JArr [JStr (js ''b'')])]"

definition blank_answer_body :: json where
  "blank_answer_body =
     JObj [(js ''name'', JStr (js ''Ann'')), (js ''surname'', JStr (js ''Lee'')),
           (js ''answers'', JArr [JStr []])]"

text \<open>A submission with an empty name and a surname that does not convert to a string.\<close>

definition unconvertible_surname_text :: jstring where
  "unconvertible_surname_text = js ''{\"name\":\"\",\"surname\":{\"toString\":1},\"answers\":[\"b\"]}''"

definition unconvertible_surname_body :: json where
  "unconvertible_surname_body =
     JObj [(js ''name'', JStr []), (js ''surname'', JObj [(js ''toString'', JNum (Finite 1))]),
           (js ''answers'', JArr [JStr (js ''b'')])]"

text \<open>Forty questions, of which the first twenty-three are answered correctly.\<close>

definition long_state :: server_state where
  "long_state = \<lparr> currentQuiz = Some (replicate 40 sample_question), quizResults = [] \<rparr>"

definition long_answers :: json where
  "long_answers = JArr (replicate 23 (JStr (js ''b'')) @ replicate 17 (JStr (js ''a'')))"

definition long_body :: json where
  "long_body =
     JObj [(js ''name'', JStr (js ''Ann'')), (js ''surname'', JStr (js ''Lee'')),
           (js ''answers'', long_answers)]"

section \<open>String literals\<close>

lemma js_Nil [simp]: "js s = [] \<longleftrightarrow> s = []" "[] = js s \<longleftrightarrow> s = []"
  by (auto simp: js_def)

lemma js_Cons: "js (c # s) = of_nat (of_char c) # js s"
  by (simp add: js_def)

lemma js_append: "js (a @ b) = js a @ js b"
  by (simp add: js_def)

lemma js_char_inj: "(of_nat (of_char a) :: jschar) = of_nat (of_char b) \<longleftrightarrow> a = b"
proof
  assume h: "(of_nat (of_char a) :: jschar) = of_nat (of_char b)"
  have bound: "(of_char c :: nat) < 2 ^ 16" for c
  proof -
    have "(of_char c :: nat) mod 256 = of_char c" by (rule of_char_mod_256)
    then have "(of_char c :: nat) < 256" by (metis mod_less_divisor zero_less_numeral)
    moreover have "(256::nat) \<le> 2 ^ 16" by simp
    ultimately show ?thesis by (rule less_le_trans)
  qed
  have "unat (of_nat (of_char a) :: jschar) = unat (of_nat (of_char b) :: jschar)"
    using h by simp
  then have "(of_char a :: nat) = of_char b"
    using bound [of a] bound [of b] by (simp add: unat_of_nat)
  then show "a = b" by simp
qed simp

lemma js_inj [simp]: "js a = js b \<longleftrightarrow> a = b"
proof (induction a arbitrary: b)
  case Nil
  show ?case by (auto simp: js_def)
next
  case (Cons x a)
  show ?case
  proof (cases b)
    case Nil
    then show ?thesis by (simp add: js_def)
  next
    case (Cons y b')
    then show ?thesis using Cons.IH [of b'] by (simp add: js_Cons js_char_inj)
  qed
qed

section \<open>Conversion to a string\<close>

lemma to_string_None_iff: "to_string eng v = None \<longleftrightarrow> \<not> stringifiable v"
  by (cases v) simp_all

text \<open>Only an object or an array can fail to convert, and both are truthy.\<close>

lemma falsy_stringifiable: "\<not> truthy (Some v) \<Longrightarrow> stringifiable v"
  by (cases v) simp_all

lemma stringifiable_or_not_provided: "stringifiable (or_not_provided v) \<longleftrightarrow> renders v"
proof (cases v)
  case None
  then show ?thesis by (simp add: or_not_provided_def)
next
  case (Some x)
  then show ?thesis using falsy_stringifiable [of x] by (auto simp: or_not_provided_def)
qed

lemma renders_length_or_zero:
  "renders (length_or_zero v) \<longleftrightarrow> (\<forall>a. v = Some a \<longrightarrow> renders (get_length a))"
proof (cases v)
  case None
  then show ?thesis by (simp add: length_or_zero_def)
next
  case (Some a)
  then show ?thesis by (cases a) (simp_all add: length_or_zero_def)
qed

lemma renders_length_string [simp]: "renders (length_or_zero (Some (JStr t)))"
  by (simp add: renders_length_or_zero)

lemma renders_length_array [simp]: "renders (length_or_zero (Some (JArr xs)))"
  by (simp add: renders_length_or_zero)

text \<open>Values that are strictly equal are primitive.\<close>

lemma strict_eq_renders: "strict_eq a b \<Longrightarrow> renders a \<and> renders b"
  by (induction a b rule: strict_eq.induct) simp_all

section \<open>The bound of the parser\<close>

lemma skip_ws_length: "length (skip_ws s) \<le> length s"
  by (simp add: skip_ws_def length_dropWhile_le)

lemma skip_ws_Cons_length: "skip_ws s = c # r \<Longrightarrow> length r < length s"
  using skip_ws_length [of s] by simp

lemma cons_result_Some:
  "cons_result c x = Some (t, r) \<Longrightarrow> \<exists>t'. x = Some (t', r)"
  by (auto simp: cons_result_def split: option.splits)

lemma parse_string_body_shorter:
  "parse_string_body s = Some (t, r) \<Longrightarrow> length r < length s"
proof (induction "length s" arbitrary: s t rule: less_induct)
  case less
  from less.prems obtain c s0 where s: "s = c # s0" by (cases s) auto
  show ?case
  proof (cases "c = 0x22")
    case True
    then show ?thesis using less.prems s by simp
  next
    case False
    note nq = this
    show ?thesis
    proof (cases "c = 0x5C")
      case True
      then obtain e s1 where s0: "s0 = e # s1" using less.prems nq s by (cases s0) auto
      show ?thesis
      proof (cases "e = 0x75")
        case True
        with less.prems nq \<open>c = 0x5C\<close> s s0 obtain h1 h2 h3 h4 s2 t' where
          s1: "s1 = h1 # h2 # h3 # h4 # s2" and rec: "parse_string_body s2 = Some (t', r)"
          by (auto split: list.splits option.splits dest!: cons_result_Some)
        have "length s2 < length s" using s s0 s1 by simp
        from less.hyps [OF this rec] show ?thesis using s s0 s1 by simp
      next
        case False
        with less.prems nq \<open>c = 0x5C\<close> s s0 obtain t' where
          rec: "parse_string_body s1 = Some (t', r)"
          by (auto split: option.splits dest!: cons_result_Some)
        have "length s1 < length s" using s s0 by simp
        from less.hyps [OF this rec] show ?thesis using s s0 by simp
      qed
    next
      case False
      with less.prems nq s obtain t' where rec: "parse_string_body s0 = Some (t', r)"
        by (auto split: if_splits dest!: cons_result_Some)
      have "length s0 < length s" using s by simp
      from less.hyps [OF this rec] show ?thesis using s by simp
    qed
  qed
qed

lemma parse_int_part_shorter: "parse_int_part s = Some (ds, r) \<Longrightarrow> length r < length s"
  by (auto simp: parse_int_part_def length_dropWhile_le less_Suc_eq_le
      split: list.splits if_splits)

lemma parse_frac_shorter: "parse_frac s = Some (ds, r) \<Longrightarrow> length r \<le> length s"
  by (auto simp: parse_frac_def split: list.splits if_splits
      intro: le_trans [OF length_dropWhile_le])

lemma parse_exp_shorter: "parse_exp s = Some (e, r) \<Longrightarrow> length r \<le> length s"
  by (auto simp: parse_exp_def Let_def split: list.splits if_splits prod.splits
      intro: le_trans [OF length_dropWhile_le])

lemma parse_number_shorter: "parse_number s = Some (x, r) \<Longrightarrow> length r < length s"
proof -
  assume a: "parse_number s = Some (x, r)"
  define s1 where "s1 = (case s of [] \<Rightarrow> s | c # r \<Rightarrow> if c = 0x2D then r else s)"
  have s1: "length s1 \<le> length s" by (auto simp: s1_def split: list.splits)
  from a obtain ip s2 fp s3 ex where
    "parse_int_part s1 = Some (ip, s2)" "parse_frac s2 = Some (fp, s3)"
    "parse_exp s3 = Some (ex, r)"
    by (auto simp: parse_number_def s1_def Let_def split: list.splits if_splits option.splits)
  then have "length s2 < length s1" "length s3 \<le> length s2" "length r \<le> length s3"
    by (auto dest: parse_int_part_shorter parse_frac_shorter parse_exp_shorter)
  then show ?thesis using s1 by linarith
qed

text \<open>Every successful parse consumes input.\<close>

lemma parse_consumes:
  "(\<forall>s v r. parse_value n s = Some (v, r) \<longrightarrow> length r < length s)
   \<and> (\<forall>acc s v r. parse_elements n acc s = Some (v, r) \<longrightarrow> length r < length s)
   \<and> (\<forall>acc s v r. parse_members n acc s = Some (v, r) \<longrightarrow> length r < length s)"
proof (induction n)
  case 0
  show ?case by simp
next
  case (Suc n)
  then have IHv: "\<And>s v r. parse_value n s = Some (v, r) \<Longrightarrow> length r < length s"
    and IHe: "\<And>acc s v r. parse_elements n acc s = Some (v, r) \<Longrightarrow> length r < length s"
    and IHm: "\<And>acc s v r. parse_members n acc s = Some (v, r) \<Longrightarrow> length r < length s"
    by blast+
  have V: "length r < length s" if a: "parse_value (Suc n) s = Some (v, r)" for s v r
  proof -
    from a obtain c r0 where sk: "skip_ws s = c # r0" by (cases "skip_ws s") auto
    then have r0: "length r0 < length s" by (rule skip_ws_Cons_length)
    consider (obj) "c = 0x7B" | (arr) "c \<noteq> 0x7B" "c = 0x5B" | (str) "c \<noteq> 0x7B" "c \<noteq> 0x5B" "c = 0x22"
      | (other) "c \<noteq> 0x7B" "c \<noteq> 0x5B" "c \<noteq> 0x22"
      by blast
    then show ?thesis
    proof cases
      case obj
      with a sk obtain d r1 where d: "skip_ws r0 = d # r1"
        and res: "(d = 0x7D \<and> r = r1) \<or> parse_members n [] r0 = Some (v, r)"
        by (auto split: list.splits if_splits)
      from d have "length r1 < length r0" by (rule skip_ws_Cons_length)
      with res r0 IHm [of "[]" r0 v r] show ?thesis by auto
    next
      case arr
      with a sk obtain d r1 where d: "skip_ws r0 = d # r1"
        and res: "(d = 0x5D \<and> r = r1) \<or> parse_elements n [] r0 = Some (v, r)"
        by (auto split: list.splits if_splits)
      from d have "length r1 < length r0" by (rule skip_ws_Cons_length)
      with res r0 IHe [of "[]" r0 v r] show ?thesis by auto
    next
      case str
      with a sk obtain t where "parse_string_body r0 = Some (t, r)"
        by (auto split: option.splits)
      then have "length r < length r0" by (rule parse_string_body_shorter)
      with r0 show ?thesis by simp
    next
      case other
      have len: "length (c # r0) \<le> length s" using r0 by simp
      from a sk other have
        "r = drop 4 (c # r0) \<or> r = drop 5 (c # r0)
         \<or> (\<exists>x. parse_number (c # r0) = Some (x, r))"
        by (auto split: if_splits option.splits)
      then show ?thesis
      proof (elim disjE exE)
        assume "r = drop 4 (c # r0)"
        then show ?thesis using len by simp
      next
        assume "r = drop 5 (c # r0)"
        then show ?thesis using len by simp
      next
        fix x assume "parse_number (c # r0) = Some (x, r)"
        then have "length r < length (c # r0)" by (rule parse_number_shorter)
        then show ?thesis using len by simp
      qed
    qed
  qed
  have E: "length r < length s" if a: "parse_elements (Suc n) acc s = Some (v, r)" for acc s v r
  proof -
    from a obtain v1 r1 where v1: "parse_value n s = Some (v1, r1)"
      by (auto split: option.splits)
    then have r1: "length r1 < length s" by (rule IHv)
    from a v1 obtain c r2 where sk: "skip_ws r1 = c # r2"
      by (auto split: list.splits)
    then have r2: "length r2 < length r1" by (rule skip_ws_Cons_length)
    from a v1 sk have "parse_elements n (acc @ [v1]) r2 = Some (v, r) \<or> r = r2"
      by (auto split: if_splits)
    then show ?thesis using IHe [of "acc @ [v1]" r2 v r] r1 r2 by auto
  qed
  have M: "length r < length s" if a: "parse_members (Suc n) acc s = Some (v, r)" for acc s v r
  proof -
    from a obtain c r0 where sk: "skip_ws s = c # r0" by (cases "skip_ws s") auto
    then have r0: "length r0 < length s" by (rule skip_ws_Cons_length)
    from a sk obtain k r1 where k: "parse_string_body r0 = Some (k, r1)"
      by (auto split: if_splits option.splits)
    then have r1: "length r1 < length r0" by (rule parse_string_body_shorter)
    from a sk k obtain c1 r2 where sk1: "skip_ws r1 = c1 # r2"
      by (auto split: if_splits list.splits)
    then have r2: "length r2 < length r1" by (rule skip_ws_Cons_length)
    from a sk k sk1 obtain v1 r3 where v1: "parse_value n r2 = Some (v1, r3)"
      by (auto split: if_splits option.splits)
    then have r3: "length r3 < length r2" by (rule IHv)
    from a sk k sk1 v1 obtain c3 r4 where sk3: "skip_ws r3 = c3 # r4"
      by (auto split: if_splits list.splits)
    then have r4: "length r4 < length r3" by (rule skip_ws_Cons_length)
    from a sk k sk1 v1 sk3 have "parse_members n (obj_set acc k v1) r4 = Some (v, r) \<or> r = r4"
      by (auto split: if_splits)
    then show ?thesis using IHm [of "obj_set acc k v1" r4 v r] r0 r1 r2 r3 r4 by auto
  qed
  from V E M show ?case by blast
qed

lemmas parse_value_shorter = parse_consumes [THEN conjunct1, rule_format]

lemma fuel_step_value:
  assumes IHe: "\<And>acc s m. 2 * length s + 2 \<le> n \<Longrightarrow> n \<le> m
                    \<Longrightarrow> parse_elements m acc s = parse_elements n acc s"
    and IHm: "\<And>acc s m. 2 * length s + 1 \<le> n \<Longrightarrow> n \<le> m
                    \<Longrightarrow> parse_members m acc s = parse_members n acc s"
    and b: "2 * length s + 1 \<le> Suc n" "n \<le> m"
  shows "parse_value (Suc m) s = parse_value (Suc n) s"
proof (cases "skip_ws s")
  case Nil
  then show ?thesis by simp
next
  case (Cons c r0)
  then have "length r0 < length s" by (rule skip_ws_Cons_length)
  then have "2 * length r0 + 2 \<le> n" using b(1) by simp
  then have "parse_members m [] r0 = parse_members n [] r0"
    "parse_elements m [] r0 = parse_elements n [] r0"
    using IHm [of r0 m "[]"] IHe [of r0 m "[]"] b(2) by simp_all
  then show ?thesis using Cons by (simp split: list.splits)
qed

lemma fuel_step_elements:
  assumes IHv: "\<And>s m. 2 * length s + 1 \<le> n \<Longrightarrow> n \<le> m
                    \<Longrightarrow> parse_value m s = parse_value n s"
    and IHe: "\<And>acc s m. 2 * length s + 2 \<le> n \<Longrightarrow> n \<le> m
                    \<Longrightarrow> parse_elements m acc s = parse_elements n acc s"
    and b: "2 * length s + 2 \<le> Suc n" "n \<le> m"
  shows "parse_elements (Suc m) acc s = parse_elements (Suc n) acc s"
proof -
  have pv: "parse_value m s = parse_value n s" using IHv [of s m] b by simp
  show ?thesis
  proof (cases "parse_value n s")
    case None
    then show ?thesis using pv by simp
  next
    case (Some x)
    obtain v1 r1 where x: "x = (v1, r1)" by (cases x)
    have r1: "length r1 < length s" using Some x by (auto dest: parse_value_shorter)
    show ?thesis
    proof (cases "skip_ws r1")
      case Nil
      then show ?thesis using pv Some x by simp
    next
      case (Cons c r2)
      then have "length r2 < length r1" by (rule skip_ws_Cons_length)
      then have "2 * length r2 + 2 \<le> n" using r1 b(1) by simp
      then have "parse_elements m (acc @ [v1]) r2 = parse_elements n (acc @ [v1]) r2"
        using IHe [of r2 m "acc @ [v1]"] b(2) by simp
      then show ?thesis using pv Some x Cons by simp
    qed
  qed
qed

lemma fuel_step_members:
  assumes IHv: "\<And>s m. 2 * length s + 1 \<le> n \<Longrightarrow> n \<le> m
                    \<Longrightarrow> parse_value m s = parse_value n s"
    and IHm: "\<And>acc s m. 2 * length s + 1 \<le> n \<Longrightarrow> n \<le> m
                    \<Longrightarrow> parse_members m acc s = parse_members n acc s"
    and b: "2 * length s + 1 \<le> Suc n" "n \<le> m"
  shows "parse_members (Suc m) acc s = parse_members (Suc n) acc s"
proof (cases "skip_ws s")
  case Nil
  then show ?thesis by simp
next
  case (Cons c r0)
  then have r0: "length r0 < length s" by (rule skip_ws_Cons_length)
  show ?thesis
  proof (cases "parse_string_body r0")
    case None
    then show ?thesis using Cons by simp
  next
    case (Some x)
    obtain k r1 where x: "x = (k, r1)" by (cases x)
    have r1: "length r1 < length r0" using Some x by (auto dest: parse_string_body_shorter)
    show ?thesis
    proof (cases "skip_ws r1")
      case Nil
      then show ?thesis using Cons Some x by simp
    next
      case sk1: (Cons c1 r2)
      then have r2: "length r2 < length r1" by (rule skip_ws_Cons_length)
      then have "2 * length r2 + 1 \<le> n" using r0 r1 b(1) by simp
      then have pv: "parse_value m r2 = parse_value n r2" using IHv [of r2 m] b(2) by simp
      show ?thesis
      proof (cases "parse_value n r2")
        case None
        then show ?thesis using Cons Some x sk1 pv by simp
      next
        case v: (Some y)
        obtain v1 r3 where y: "y = (v1, r3)" by (cases y)
        have r3: "length r3 < length r2" using v y by (auto dest: parse_value_shorter)
        show ?thesis
        proof (cases "skip_ws r3")
          case Nil
          then show ?thesis using Cons Some x sk1 pv v y by simp
        next
          case sk3: (Cons c3 r4)
          then have "length r4 < length r3" by (rule skip_ws_Cons_length)
          then have "2 * length r4 + 1 \<le> n" using r0 r1 r2 r3 b(1) by simp
          then have "parse_members m (obj_set acc k v1) r4 = parse_members n (obj_set acc k v1) r4"
            using IHm [of r4 m "obj_set acc k v1"] b(2) by simp
          then show ?thesis using Cons Some x sk1 pv v y sk3 by simp
        qed
      qed
    qed
  qed
qed

text \<open>From a bound that the text cannot exhaust on, more fuel changes nothing.\<close>

lemma parse_fuel_enough:
  "(\<forall>s m. 2 * length s + 1 \<le> n \<longrightarrow> n \<le> m \<longrightarrow> parse_value m s = parse_value n s)
   \<and> (\<forall>acc s m. 2 * length s + 2 \<le> n \<longrightarrow> n \<le> m
          \<longrightarrow> parse_elements m acc s = parse_elements n acc s)
   \<and> (\<forall>acc s m. 2 * length s + 1 \<le> n \<longrightarrow> n \<le> m
          \<longrightarrow> parse_members m acc s = parse_members n acc s)"
proof (induction n)
  case 0
  show ?case by simp
next
  case (Suc n)
  then have IHv: "\<And>s m. 2 * length s + 1 \<le> n \<Longrightarrow> n \<le> m
                    \<Longrightarrow> parse_value m s = parse_value n s"
    and IHe: "\<And>acc s m. 2 * length s + 2 \<le> n \<Longrightarrow> n \<le> m
                    \<Longrightarrow> parse_elements m acc s = parse_elements n acc s"
    and IHm: "\<And>acc s m. 2 * length s + 1 \<le> n \<Longrightarrow> n \<le> m
                    \<Longrightarrow> parse_members m acc s = parse_members n acc s"
    by blast+
  have V: "parse_value m s = parse_value (Suc n) s"
    if b: "2 * length s + 1 \<le> Suc n" "Suc n \<le> m" for s :: jstring and m
  proof -
    from b(2) obtain k where m: "m = Suc k" and k: "n \<le> k" by (cases m) auto
    have "parse_value (Suc k) s = parse_value (Suc n) s"
      using IHe IHm b(1) k by (rule fuel_step_value)
    then show ?thesis by (simp only: m)
  qed
  have E: "parse_elements m acc s = parse_elements (Suc n) acc s"
    if b: "2 * length s + 2 \<le> Suc n" "Suc n \<le> m" for s :: jstring and m acc
  proof -
    from b(2) obtain k where m: "m = Suc k" and k: "n \<le> k" by (cases m) auto
    have "parse_elements (Suc k) acc s = parse_elements (Suc n) acc s"
      using IHv IHe b(1) k by (rule fuel_step_elements)
    then show ?thesis by (simp only: m)
  qed
  have M: "parse_members m acc s = parse_members (Suc n) acc s"
    if b: "2 * length s + 1 \<le> Suc n" "Suc n \<le> m" for s :: jstring and m acc
  proof -
    from b(2) obtain k where m: "m = Suc k" and k: "n \<le> k" by (cases m) auto
    have "parse_members (Suc k) acc s = parse_members (Suc n) acc s"
      using IHv IHm b(1) k by (rule fuel_step_members)
    then show ?thesis by (simp only: m)
  qed
  from V E M show ?case by blast
qed

text \<open>More fuel keeps a result.\<close>

lemma parse_fuel_mono:
  "(\<forall>s x. parse_value n s = Some x \<longrightarrow> parse_value (Suc n) s = Some x)
   \<and> (\<forall>acc s x. parse_elements n acc s = Some x \<longrightarrow> parse_elements (Suc n) acc s = Some x)
   \<and> (\<forall>acc s x. parse_members n acc s = Some x \<longrightarrow> parse_members (Suc n) acc s = Some x)"
proof (induction n)
  case 0
  show ?case by simp
next
  case (Suc n)
  then have IHv: "\<And>s x. parse_value n s = Some x \<Longrightarrow> parse_value (Suc n) s = Some x"
    and IHe: "\<And>acc s x. parse_elements n acc s = Some x
                \<Longrightarrow> parse_elements (Suc n) acc s = Some x"
    and IHm: "\<And>acc s x. parse_members n acc s = Some x
                \<Longrightarrow> parse_members (Suc n) acc s = Some x"
    by blast+
  have V: "parse_value (Suc (Suc n)) s = Some x" if a: "parse_value (Suc n) s = Some x" for s x
  proof -
    from a obtain c r0 where sk: "skip_ws s = c # r0" by (cases "skip_ws s") auto
    note lo = parse_value.simps(2) [of n s]
    note hi = parse_value.simps(2) [of "Suc n" s]
    show ?thesis
    proof (cases "c = 0x7B")
      case True
      from a have "(case skip_ws r0 of
               [] \<Rightarrow> None
             | d # r' \<Rightarrow> if d = 0x7D then Some (JObj [], r') else parse_members n [] r0) = Some x"
        by (simp only: lo sk list.case True if_True simp_thms)
      then have "(case skip_ws r0 of
               [] \<Rightarrow> None
             | d # r' \<Rightarrow> if d = 0x7D then Some (JObj [], r') else parse_members (Suc n) [] r0)
            = Some x"
        by (cases "skip_ws r0") (auto simp del: parse_members.simps intro: IHm split: if_splits)
      then show ?thesis by (simp only: hi sk list.case True if_True simp_thms)
    next
      case False
      note nb = this
      show ?thesis
      proof (cases "c = 0x5B")
        case True
        from a have "(case skip_ws r0 of
               [] \<Rightarrow> None
             | d # r' \<Rightarrow> if d = 0x5D then Some (JArr [], r') else parse_elements n [] r0) = Some x"
          by (simp add: lo sk nb True del: parse_value.simps parse_members.simps parse_elements.simps)
        then have "(case skip_ws r0 of
               [] \<Rightarrow> None
             | d # r' \<Rightarrow> if d = 0x5D then Some (JArr [], r') else parse_elements (Suc n) [] r0)
            = Some x"
          by (cases "skip_ws r0") (auto simp del: parse_elements.simps intro: IHe split: if_splits)
        then show ?thesis by (simp add: hi sk nb True del: parse_value.simps parse_members.simps parse_elements.simps)
      next
        case False
        have "parse_value (Suc (Suc n)) s = parse_value (Suc n) s"
          by (simp add: hi lo sk nb False del: parse_value.simps parse_members.simps parse_elements.simps)
        then show ?thesis using a by (simp only:)
      qed
    qed
  qed
  have E: "parse_elements (Suc (Suc n)) acc s = Some x"
    if a: "parse_elements (Suc n) acc s = Some x" for acc s x
  proof -
    from a obtain v1 r1 where v1: "parse_value n s = Some (v1, r1)"
      by (auto split: option.splits)
    from IHv [OF v1] have v1': "parse_value (Suc n) s = Some (v1, r1)" .
    from a v1 obtain c r2 where sk: "skip_ws r1 = c # r2" by (auto split: list.splits)
    from a v1 sk have "(if c = 0x2C then parse_elements n (acc @ [v1]) r2
               else if c = 0x5D then Some (JArr (acc @ [v1]), r2) else None) = Some x"
      by simp
    then have "(if c = 0x2C then parse_elements (Suc n) (acc @ [v1]) r2
               else if c = 0x5D then Some (JArr (acc @ [v1]), r2) else None) = Some x"
      by (auto simp del: parse_elements.simps intro: IHe split: if_splits)
    moreover have "parse_elements (Suc (Suc n)) acc s
       = (if c = 0x2C then parse_elements (Suc n) (acc @ [v1]) r2
               else if c = 0x5D then Some (JArr (acc @ [v1]), r2) else None)"
      by (simp only: parse_elements.simps(2) [of "Suc n"] v1' sk option.case prod.case list.case)
    ultimately show ?thesis by (simp only:)
  qed
  have M: "parse_members (Suc (Suc n)) acc s = Some x"
    if a: "parse_members (Suc n) acc s = Some x" for acc s x
  proof -
    from a obtain c r0 where sk: "skip_ws s = c # r0" by (cases "skip_ws s") auto
    from a sk have c: "c = 0x22" by (auto split: if_splits)
    from a sk obtain k r1 where k: "parse_string_body r0 = Some (k, r1)"
      by (auto split: if_splits option.splits)
    from a sk k obtain c1 r2 where sk1: "skip_ws r1 = c1 # r2"
      by (auto split: if_splits list.splits)
    from a sk k sk1 have c1: "c1 = 0x3A" by (auto split: if_splits)
    from a sk k sk1 obtain v1 r3 where v1: "parse_value n r2 = Some (v1, r3)"
      by (auto split: if_splits option.splits)
    from IHv [OF v1] have v1': "parse_value (Suc n) r2 = Some (v1, r3)" .
    from a sk k sk1 v1 obtain c3 r4 where sk3: "skip_ws r3 = c3 # r4"
      by (auto split: if_splits list.splits)
    from a sk c k sk1 c1 v1 sk3 have
      "(if c3 = 0x2C then parse_members n (obj_set acc k v1) r4
        else if c3 = 0x7D then Some (JObj (obj_set acc k v1), r4) else None) = Some x"
      by simp
    then have "(if c3 = 0x2C then parse_members (Suc n) (obj_set acc k v1) r4
        else if c3 = 0x7D then Some (JObj (obj_set acc k v1), r4) else None) = Some x"
      by (auto simp del: parse_members.simps intro: IHm split: if_splits)
    moreover have "parse_members (Suc (Suc n)) acc s
       = (if c3 = 0x2C then parse_members (Suc n) (obj_set acc k v1) r4
          else if c3 = 0x7D then Some (JObj (obj_set acc k v1), r4) else None)"
      by (simp only: parse_members.simps(2) [of "Suc n"] sk c k sk1 c1 v1' sk3
            option.case prod.case list.case if_True simp_thms)
    ultimately show ?thesis by (simp only:)
  qed
  from V E M show ?case by blast
qed

lemma parse_value_more_fuel:
  "parse_value n s = Some x \<Longrightarrow> n \<le> m \<Longrightarrow> parse_value m s = Some x"
proof (induction m)
  case 0
  then show ?case by simp
next
  case (Suc m)
  show ?case
  proof (cases "n = Suc m")
    case True
    then show ?thesis using Suc.prems by simp
  next
    case False
    then have "n \<le> m" using Suc.prems by simp
    from Suc.IH [OF Suc.prems(1) this] show ?thesis
      using parse_fuel_mono [of m] by blast
  qed
qed

text \<open>
  The bound that \<open>JSON_parse\<close> passes is enough: a parse that succeeds with any bound is the
  result of \<open>JSON_parse\<close>, so that \<open>None\<close> is a text that no bound parses.
\<close>

lemma parse_value_fuel_enough:
  "2 * length s + 1 \<le> n \<Longrightarrow> n \<le> m \<Longrightarrow> parse_value m s = parse_value n s"
  using parse_fuel_enough [of n] by blast

lemma JSON_parse_any_fuel:
  assumes "parse_value m s = Some (v, r)" and "skip_ws r = []"
  shows "JSON_parse s = Some v"
proof -
  have "parse_value (2 * length s + 2) s = Some (v, r)"
  proof (cases "m \<le> 2 * length s + 2")
    case True
    with assms(1) show ?thesis by (rule parse_value_more_fuel)
  next
    case False
    have "parse_value m s = parse_value (2 * length s + 2) s"
      by (rule parse_value_fuel_enough) (use False in simp_all)
    with assms(1) show ?thesis by (simp only:)
  qed
  then show ?thesis using assms(2) by (simp add: JSON_parse_def del: parse_value.simps)
qed

section \<open>Evaluating the service on the concrete inputs\<close>

lemma sample_question_fields:
  "get_prop sample_question (js ''word'') = Some (JStr (js ''ex''))"
  "get_prop sample_question (js ''question'') = Some (JStr (js ''Q''))"
  "get_prop sample_question (js ''options'')
     = Some (JArr [JStr (js ''a''), JStr (js ''b''), JStr (js ''c''), JStr (js ''d'')])"
  "get_prop sample_question (js ''correct'') = Some (JStr (js ''b''))"
  by (simp_all add: sample_question_def js_def)

lemma sample_question_not_null: "sample_question \<noteq> JNull"
  by (simp add: sample_question_def)

lemma valid_sample_question: "valid_question sample_question"
  by (simp add: valid_question_def sample_question_fields sample_question_not_null
        includes_arr_def same_value_zero_def)

lemma parse_sample_quiz_text:
  "JSON_parse sample_quiz_text = Some (JObj [(js ''quiz'', JArr [sample_question])])"
  unfolding sample_quiz_text_def sample_question_def by code_simp

lemma parse_fenced_text: "JSON_parse fenced_text = None"
  unfolding fenced_text_def sample_quiz_text_def by code_simp

lemma match_fenced_text: "match_first fence_match_at fenced_text = Some fenced_text"
  unfolding fenced_text_def sample_quiz_text_def by code_simp

lemma parse_noise_text: "JSON_parse noise_text = None"
  unfolding noise_text_def by code_simp

lemma fence_noise_text: "match_first fence_match_at noise_text = None"
  unfolding noise_text_def by code_simp

lemma brace_noise_text: "match_first brace_match_at noise_text = Some (js ''{\"quiz\":[]}'')"
  unfolding noise_text_def by code_simp

lemma parse_empty_quiz: "JSON_parse (js ''{\"quiz\":[]}'') = Some (JObj [(js ''quiz'', JArr [])])"
  by code_simp

lemma parse_null_quiz_text: "JSON_parse null_quiz_text = Some (JObj [(js ''quiz'', JArr [JNull])])"
  unfolding null_quiz_text_def by code_simp

lemma parse_loose_quiz_text:
  "JSON_parse loose_quiz_text = Some (JObj [(js ''quiz'', JArr [loose_question])])"
  unfolding loose_quiz_text_def loose_question_def by code_simp

lemma get_quiz: "get_prop (JObj [(js ''quiz'', v)]) (js ''quiz'') = Some v"
  by simp

lemma sample_input_ok: "sample_input \<noteq> [] \<and> \<not> length (trim sample_input) < 20"
  unfolding sample_input_def by code_simp

lemma sample_env_key: "truthy_str (OPENROUTER_API_KEY sample_env)"
  by (simp add: sample_env_def truthy_str_def js_def)

lemma generate_reaches_try:
  "generateQuizFromText eng sample_env (Some (JStr sample_input)) outcome
     = (case try_block eng outcome of Inr quiz \<Rightarrow> Inr quiz | Inl err \<Rightarrow> Inl (catch_block err))"
  using sample_input_ok sample_env_key by (simp add: generateQuizFromText_def)

section \<open>The validator\<close>

lemma validate_questions_step_valid:
  "valid_question q \<Longrightarrow> validate_questions eng i (q # qs) = validate_questions eng (i + 1) qs"
  by (auto simp: valid_question_def split: option.splits json.splits)

lemma validate_questions_step_invalid:
  "\<not> valid_question q \<Longrightarrow> validate_questions eng i (q # qs) \<noteq> None"
  by (auto simp: valid_question_def split: option.splits json.splits)

lemma validate_questions_None_iff:
  "validate_questions eng i qs = None \<longleftrightarrow> list_all valid_question qs"
proof (induction qs arbitrary: i)
  case Nil
  show ?case by simp
next
  case (Cons q qs)
  show ?case
  proof (cases "valid_question q")
    case True
    then show ?thesis
      using Cons.IH [of "i + 1"] validate_questions_step_valid [of q eng i qs] by simp
  next
    case False
    then show ?thesis
      using validate_questions_step_invalid [of q eng i qs] by simp
  qed
qed

lemma validate_quiz_Inr:
  assumes "validate_quiz eng quizObj = Inr quiz"
  shows "quiz \<noteq> [] \<and> list_all valid_question quiz
         \<and> get_prop quizObj (js ''quiz'') = Some (JArr quiz)"
proof -
  from assms obtain xs where xs: "get_prop quizObj (js ''quiz'') = Some (JArr xs)"
    by (auto simp: validate_quiz_def split: if_splits option.splits json.splits)
  with assms have "xs \<noteq> []" "validate_questions eng 0 xs = None" "quiz = xs"
    by (auto simp: validate_quiz_def split: if_splits option.splits)
  with xs show ?thesis by (simp add: validate_questions_None_iff)
qed

lemma validate_quiz_accepts:
  assumes "get_prop quizObj (js ''quiz'') = Some (JArr quiz)" and "quiz \<noteq> []"
    and "list_all valid_question quiz"
  shows "validate_quiz eng quizObj = Inr quiz"
proof -
  have "quizObj \<noteq> JNull" using assms(1) by auto
  moreover have "validate_questions eng 0 quiz = None"
    using assms(3) by (simp add: validate_questions_None_iff)
  ultimately show ?thesis using assms(1,2) by (simp add: validate_quiz_def)
qed

lemma generateQuizFromText_Inr:
  assumes "generateQuizFromText eng env text outcome = Inr quiz"
  shows "quiz \<noteq> [] \<and> list_all valid_question quiz"
proof -
  from assms have "try_block eng outcome = Inr quiz"
    by (auto simp: generateQuizFromText_def split: option.splits json.splits if_splits sum.splits)
  then obtain quizObj where "validate_quiz eng quizObj = Inr quiz"
    by (auto simp: try_block_def split: api_outcome.splits if_splits sum.splits)
  then show ?thesis using validate_quiz_Inr by blast
qed

text \<open>A truthy value found by \<open>includes\<close> is strictly equal to an entry of the array.\<close>

lemma includes_arr_truthy:
  assumes "includes_arr opts v" and "truthy v"
  shows "\<exists>x \<in> set opts. strict_eq (Some x) v"
proof -
  from assms(2) have "v \<noteq> Some (JNum NaN)" by auto
  with assms(1) show ?thesis
    by (auto simp: includes_arr_def same_value_zero_def list_ex_iff)
qed

lemma valid_loose_question: "valid_question loose_question"
  by (simp add: valid_question_def loose_question_def includes_arr_def same_value_zero_def)

section \<open>The response extractor\<close>

lemma JSON_parse_backquote: "JSON_parse (0x60 # s) = None"
proof -
  have "2 * length (0x60 # s :: jstring) + 2 = Suc (2 * length s + 3)" by simp
  moreover have "parse_value (Suc n) (0x60 # s) = None" for n
    by (simp add: skip_ws_def is_json_ws_def js_def parse_number_def parse_int_part_def is_digit_def)
  ultimately show ?thesis by (simp only: JSON_parse_def option.case)
qed

lemma fence_json_Cons: "fence_json @ x = 0x60 # tl (fence_json @ x)"
  by (simp add: fence_json_def js_def)

lemma match_first_fence_starts:
  "match_first fence_match_at s = Some m \<Longrightarrow> \<exists>x. m = fence_json @ x"
proof (induction s)
  case Nil
  then show ?case by (auto simp: fence_match_at_def split: if_splits)
next
  case (Cons c s)
  then show ?case by (auto simp: fence_match_at_def split: if_splits option.splits)
qed

text \<open>
  Whatever the fenced block holds: once the whole text is not JSON and the fence pattern
  matches, the text handed to the second \<open>JSON.parse\<close> is the whole match, fences
  included, and the extractor fails.
\<close>

lemma fenced_block_always_fails:
  assumes "JSON_parse content = None" and "match_first fence_match_at content = Some m"
  shows "parse_content eng content
         = Inl (Error (js ''Failed to parse extracted JSON: '' @ syntax_error_message eng m))"
proof -
  from assms(2) obtain x where "m = fence_json @ x" using match_first_fence_starts by blast
  then have "JSON_parse m = None" using JSON_parse_backquote fence_json_Cons by metis
  with assms show ?thesis by (simp add: parse_content_def)
qed

lemma parse_content_fenced_text:
  "parse_content eng fenced_text
     = Inl (Error (js ''Failed to parse extracted JSON: '' @ syntax_error_message eng fenced_text))"
  using parse_fenced_text match_fenced_text by (rule fenced_block_always_fails)

lemma validate_sample_quiz:
  "validate_quiz eng (JObj [(js ''quiz'', JArr [sample_question])]) = Inr [sample_question]"
  by (rule validate_quiz_accepts) (simp_all add: valid_sample_question)

text \<open>
  Claim C1. When parsing the whole raw text fails and the text holds a fenced block labeled
  \<open>json\<close> whose interior is valid JSON, extraction should return the object parsed from the
  interior. The service does not: for the text \<open>fenced_text\<close>, whose interior
  \<open>sample_quiz_text\<close> parses to a quiz that the validator accepts, the fence pattern matches
  the whole text, the service parses element \<open>[0]\<close> of the match, which starts with the
  opening fence, and extraction fails with the error of line 124.
\<close>

theorem fenced_json_block_not_extracted:
  "JSON_parse fenced_text = None
   \<and> fenced_text = js ''```json'' @ [0x0A] @ sample_quiz_text @ [0x0A] @ js ''```''
   \<and> JSON_parse sample_quiz_text = Some (JObj [(js ''quiz'', JArr [sample_question])])
   \<and> validate_quiz eng (JObj [(js ''quiz'', JArr [sample_question])]) = Inr [sample_question]
   \<and> match_first fence_match_at fenced_text = Some fenced_text
   \<and> parse_content eng fenced_text
       = Inl (Error (js ''Failed to parse extracted JSON: ''
                     @ syntax_error_message eng fenced_text))
   \<and> try_block eng (Resolved (Some fenced_text))
       = Inl (Error (js ''Failed to parse extracted JSON: ''
                     @ syntax_error_message eng fenced_text))"
proof -
  have "fenced_text \<noteq> []" by (simp add: fenced_text_def)
  then have "try_block eng (Resolved (Some fenced_text))
       = Inl (Error (js ''Failed to parse extracted JSON: ''
                     @ syntax_error_message eng fenced_text))"
    by (simp add: try_block_def truthy_str_def parse_content_fenced_text)
  then show ?thesis
    using parse_fenced_text parse_sample_quiz_text validate_sample_quiz match_fenced_text
      parse_content_fenced_text
    by (simp add: fenced_text_def)
qed

lemma parse_content_noise_text:
  "parse_content eng noise_text = Inr (JObj [(js ''quiz'', JArr [])])"
  by (simp add: parse_content_def parse_noise_text fence_noise_text brace_noise_text
        parse_empty_quiz)

lemma validate_empty_quiz:
  "validate_quiz eng (JObj [(js ''quiz'', JArr [])]) = Inl (Error (js ''Quiz array is empty''))"
  by (simp add: validate_quiz_def)

lemma catch_block_empty_quiz:
  "catch_block (Error (js ''Quiz array is empty'')) = js ''Failed to generate quiz: Quiz array is empty''"
  by code_simp

lemma try_block_noise_text:
  "try_block eng (Resolved (Some noise_text)) = Inl (Error (js ''Quiz array is empty''))"
proof -
  have "noise_text \<noteq> []" by (simp add: noise_text_def)
  then show ?thesis
    by (simp add: try_block_def truthy_str_def parse_content_noise_text validate_empty_quiz)
qed

text \<open>
  Claim C8. For the raw model output \<open>noise {"quiz":[]} trailing\<close>: parsing the whole
  text fails, the search for a fenced block finds nothing, the span from the first \<open>{\<close>
  to the last \<open>}\<close> is \<open>{"quiz":[]}\<close> and parses to the object with an empty \<open>quiz\<close>
  array, and the validator rejects that object because the array is empty.
\<close>

theorem extraction_stage_ordering:
  "noise_text = js ''noise {\"quiz\":[]} trailing''
   \<and> JSON_parse noise_text = None
   \<and> match_first fence_match_at noise_text = None
   \<and> match_first brace_match_at noise_text = Some (js ''{\"quiz\":[]}'')
   \<and> JSON_parse (js ''{\"quiz\":[]}'') = Some (JObj [(js ''quiz'', JArr [])])
   \<and> parse_content eng noise_text = Inr (JObj [(js ''quiz'', JArr [])])
   \<and> validate_quiz eng (JObj [(js ''quiz'', JArr [])]) = Inl (Error (js ''Quiz array is empty''))
   \<and> try_block eng (Resolved (Some noise_text)) = Inl (Error (js ''Quiz array is empty''))"
  using parse_noise_text fence_noise_text brace_noise_text parse_empty_quiz
    parse_content_noise_text validate_empty_quiz try_block_noise_text
  by (simp add: noise_text_def)

section \<open>Quiz generation: POST /api/admin/quiz\<close>

lemma admin_quiz_failure_keeps_state:
  assumes "admin_quiz eng env isAdmin body outcome st = (st', r)" and "status r \<noteq> 200"
  shows "st' = st"
  using assms
  by (auto simp: admin_quiz_def split: if_splits option.splits json.splits sum.splits)

lemma admin_quiz_state_ok:
  assumes "state_ok st"
  shows "state_ok (fst (admin_quiz eng env isAdmin body outcome st))"
proof (cases "status (snd (admin_quiz eng env isAdmin body outcome st)) = 200")
  case True
  then obtain t quiz where "generateQuizFromText eng env (Some (JStr t)) outcome = Inr quiz"
    and "fst (admin_quiz eng env isAdmin body outcome st)
           = st \<lparr> currentQuiz := Some quiz, quizResults := [] \<rparr>"
    by (auto simp: admin_quiz_def split: if_splits option.splits json.splits sum.splits)
  then show ?thesis using generateQuizFromText_Inr by (auto simp: state_ok_def)
next
  case False
  then have "fst (admin_quiz eng env isAdmin body outcome st) = st"
    using admin_quiz_failure_keeps_state [of eng env isAdmin body outcome st] by (metis prod.collapse)
  then show ?thesis using assms by simp
qed

lemma generate_noise_text:
  "generateQuizFromText eng sample_env (Some (JStr sample_input)) (Resolved (Some noise_text))
     = Inl (js ''Failed to generate quiz: Quiz array is empty'')"
  by (simp add: generate_reaches_try try_block_noise_text catch_block_empty_quiz)

lemma admin_body_text: "get_prop admin_body (js ''text'') = Some (JStr sample_input)"
  by (simp add: admin_body_def)

text \<open>
  Claim C2. Whenever the pipeline \<open>generateQuizFromText\<close> that the handler runs fails, at
  whatever stage (its check of the input, the call to the provider, the extraction, the
  validation), the request is answered with status 500 and the message of the pipeline's
  error, and the current quiz and the results list are what they were before the request.
  The pipeline runs for an admin session and a text that is a non-empty string.
\<close>

theorem generation_failure_aborts:
  assumes "isAdmin" and "get_prop body (js ''text'') = Some (JStr t)" and "t \<noteq> []"
    and "generateQuizFromText eng env (Some (JStr t)) outcome = Inl m"
  shows "admin_quiz eng env isAdmin body outcome st = (st, Reply 500 (ErrorBody m))"
  using assms by (simp add: admin_quiz_def)

theorem generation_failure_aborts_witness:
  "admin_quiz node_engine sample_env True admin_body (Resolved (Some noise_text)) sample_state
     = (sample_state, Reply 500 (ErrorBody (js ''Failed to generate quiz: Quiz array is empty'')))"
proof (rule generation_failure_aborts [where t = sample_input])
  show True ..
  show "get_prop admin_body (js ''text'') = Some (JStr sample_input)" by (rule admin_body_text)
  show "sample_input \<noteq> []" using sample_input_ok by simp
  show "generateQuizFromText node_engine sample_env (Some (JStr sample_input))
          (Resolved (Some noise_text))
        = Inl (js ''Failed to generate quiz: Quiz array is empty'')"
    by (rule generate_noise_text)
qed

lemma try_block_sample_quiz_text:
  "try_block eng (Resolved (Some sample_quiz_text)) = Inr [sample_question]"
proof -
  have "sample_quiz_text \<noteq> []" by (simp add: sample_quiz_text_def)
  then show ?thesis
    by (simp add: try_block_def truthy_str_def parse_content_def parse_sample_quiz_text
          validate_sample_quiz)
qed

lemma generate_sample_quiz_text:
  "generateQuizFromText eng sample_env (Some (JStr sample_input)) (Resolved (Some sample_quiz_text))
     = Inr [sample_question]"
  by (simp add: generate_reaches_try try_block_sample_quiz_text)

text \<open>
  Claim C7. Every successful generation, that is, every request of an admin session for
  which the pipeline returns a quiz, makes that quiz, which the validator has accepted, the
  current quiz and makes the results list empty, whatever the current quiz and the results
  were before.
\<close>

theorem generation_success_replaces:
  assumes "isAdmin"
    and "generateQuizFromText eng env (get_prop body (js ''text'')) outcome = Inr quiz"
  shows "admin_quiz eng env isAdmin body outcome st
           = (\<lparr> currentQuiz = Some quiz, quizResults = [] \<rparr>,
              Reply 200 (QuizGenerated (length quiz)))
         \<and> quiz \<noteq> [] \<and> list_all valid_question quiz"
proof -
  from assms(2) obtain t where t: "get_prop body (js ''text'') = Some (JStr t)" "t \<noteq> []"
    by (auto simp: generateQuizFromText_def split: option.splits json.splits if_splits)
  have "st \<lparr> currentQuiz := Some quiz, quizResults := [] \<rparr>
          = \<lparr> currentQuiz = Some quiz, quizResults = [] \<rparr>"
    by simp
  then show ?thesis
    using assms t generateQuizFromText_Inr [OF assms(2)] by (simp add: admin_quiz_def)
qed

theorem generation_success_replaces_witness:
  "admin_quiz node_engine sample_env True admin_body (Resolved (Some sample_quiz_text)) sample_state
     = (\<lparr> currentQuiz = Some [sample_question], quizResults = [] \<rparr>, Reply 200 (QuizGenerated 1))
   \<and> quizResults sample_state = [sample_result]"
proof -
  have "generateQuizFromText node_engine sample_env (get_prop admin_body (js ''text''))
          (Resolved (Some sample_quiz_text)) = Inr [sample_question]"
    by (simp add: admin_body_text generate_sample_quiz_text)
  from generation_success_replaces [OF TrueI this, of sample_state]
  show ?thesis by (simp add: sample_state_def)
qed

section \<open>What the validator accepts and what it reports\<close>

lemma try_block_null_quiz_text:
  "try_block node_engine (Resolved (Some null_quiz_text))
     = Inl (Error (js ''Cannot read properties of null (reading 'word')''))"
proof -
  have "null_quiz_text \<noteq> []" by (simp add: null_quiz_text_def)
  moreover have "null_property_message node_engine (js ''word'')
                   = js ''Cannot read properties of null (reading 'word')''"
    by (simp add: node_engine_def js_def)
  ultimately show ?thesis
    by (simp add: try_block_def truthy_str_def parse_content_def parse_null_quiz_text
          validate_quiz_def)
qed

lemma catch_block_null_question:
  "catch_block (Error (js ''Cannot read properties of null (reading 'word')''))
     = js ''Failed to generate quiz: Cannot read properties of null (reading 'word')''"
  by code_simp

lemma no_question_in_message:
  "\<not> includes_str (js ''Failed to generate quiz: Cannot read properties of null (reading 'word')'')
        (js ''Question'')"
  by code_simp

text \<open>
  Claim C3. Every quiz the validator accepts is a non-empty sequence of questions with the
  four fields present and non-empty, four options, and the correct value among the options,
  and any violation should fail with a message that identifies the offending question. The
  second half fails on a question that is \<open>null\<close>: for the model output \<open>{"quiz":[null]}\<close>
  the loop reads \<open>q.word\<close> of \<open>null\<close>, the TypeError is caught by the \<open>catch\<close> of the
  service, and the request fails with a message that names no question.
\<close>

theorem null_question_error_names_no_question:
  "null_quiz_text = js ''{\"quiz\":[null]}''
   \<and> JSON_parse null_quiz_text = Some (JObj [(js ''quiz'', JArr [JNull])])
   \<and> generateQuizFromText node_engine sample_env (Some (JStr sample_input))
         (Resolved (Some null_quiz_text))
       = Inl (js ''Failed to generate quiz: Cannot read properties of null (reading 'word')'')
   \<and> \<not> includes_str
          (js ''Failed to generate quiz: Cannot read properties of null (reading 'word')'')
          (js ''Question'')"
proof -
  have "generateQuizFromText node_engine sample_env (Some (JStr sample_input))
          (Resolved (Some null_quiz_text))
        = Inl (js ''Failed to generate quiz: Cannot read properties of null (reading 'word')'')"
    by (simp add: generate_reaches_try try_block_null_quiz_text catch_block_null_question)
  then show ?thesis
    using parse_null_quiz_text no_question_in_message by (simp add: null_quiz_text_def)
qed

text \<open>
  Claim C4, as the service has it. The validator compares neither the options with each
  other nor their types: in every accepted quiz the options of each question are an array
  of exactly four entries, one of which is strictly equal to the correct value; the entries
  may repeat.
\<close>

theorem accepted_options_four_entries:
  assumes "validate_quiz eng quizObj = Inr quiz" and "q \<in> set quiz"
  shows "\<exists>opts. get_prop q (js ''options'') = Some (JArr opts) \<and> length opts = 4
           \<and> (\<exists>x \<in> set opts. strict_eq (Some x) (get_prop q (js ''correct'')))"
proof -
  from validate_quiz_Inr [OF assms(1)] assms(2) have v: "valid_question q"
    by (auto simp: list_all_iff)
  then obtain opts where opts: "get_prop q (js ''options'') = Some (JArr opts)"
    "length opts = 4" "includes_arr opts (get_prop q (js ''correct''))"
    by (auto simp: valid_question_def split: option.splits json.splits)
  moreover from v have "truthy (get_prop q (js ''correct''))" by (simp add: valid_question_def)
  ultimately show ?thesis using includes_arr_truthy by blast
qed

lemma validate_loose_quiz:
  "validate_quiz eng (JObj [(js ''quiz'', JArr [loose_question])]) = Inr [loose_question]"
  by (rule validate_quiz_accepts) (simp_all add: valid_loose_question)

theorem accepted_options_four_entries_witness:
  "validate_quiz node_engine (JObj [(js ''quiz'', JArr [sample_question])]) = Inr [sample_question]
   \<and> (\<exists>opts. get_prop sample_question (js ''options'') = Some (JArr opts) \<and> length opts = 4
           \<and> (\<exists>x \<in> set opts. strict_eq (Some x) (get_prop sample_question (js ''correct''))))"
proof -
  have a: "validate_quiz node_engine (JObj [(js ''quiz'', JArr [sample_question])])
             = Inr [sample_question]"
    by (rule validate_sample_quiz)
  have b: "sample_question \<in> set [sample_question]" by simp
  from accepted_options_four_entries [OF a b] a show ?thesis by simp
qed

text \<open>
  Claim C4 as stated fails: the validator accepts the quiz of \<open>loose_quiz_text\<close>, whose
  question has the options \<open>"large", "large", 1, 1\<close>: they repeat, and two of them are
  numbers.
\<close>

theorem repeated_options_accepted:
  "JSON_parse loose_quiz_text = Some (JObj [(js ''quiz'', JArr [loose_question])])
   \<and> validate_quiz node_engine (JObj [(js ''quiz'', JArr [loose_question])]) = Inr [loose_question]
   \<and> get_prop loose_question (js ''options'')
       = Some (JArr [JStr (js ''large''), JStr (js ''large''), JNum (Finite 1), JNum (Finite 1)])
   \<and> \<not> distinct [JStr (js ''large''), JStr (js ''large''), JNum (Finite 1), JNum (Finite 1)]"
  using parse_loose_quiz_text validate_loose_quiz
  by (simp add: loose_question_def)

section \<open>Submissions: POST /api/quiz/submit\<close>

text \<open>Whenever the loop returns, its results are those of the closed form.\<close>

lemma forEach_question_Some:
  assumes "forEach_question answers i qs (sc, w, d) = Some r"
  shows "r = (sc + length (filter (\<lambda>(j, q). answer_correct answers j q) (enumerate i qs)),
              w @ map (\<lambda>(j, q). wrong_entry answers j q)
                    (filter (\<lambda>(j, q). \<not> answer_correct answers j q) (enumerate i qs)),
              d @ map (\<lambda>(j, q). detailed_entry answers j q (answer_correct answers j q))
                    (enumerate i qs))"
  using assms
proof (induction qs arbitrary: i sc w d)
  case Nil
  then show ?case by simp
next
  case (Cons q qs)
  show ?case
  proof (cases "answer_correct answers i q")
    case True
    with Cons.prems have
      "forEach_question answers (i + 1) qs (sc + 1, w, d @ [detailed_entry answers i q True])
         = Some r"
      by (simp add: answer_correct_def split: if_splits)
    from Cons.IH [OF this] True show ?thesis by simp
  next
    case False
    with Cons.prems have
      "forEach_question answers (i + 1) qs
         (sc, w @ [wrong_entry answers i q], d @ [detailed_entry answers i q False]) = Some r"
      by (simp add: answer_correct_def split: if_splits)
    from Cons.IH [OF this] False show ?thesis by simp
  qed
qed

text \<open>
  The correct value of a question the validator accepted is strictly equal to one of the
  options: it is primitive, and the log line can render it.
\<close>

lemma valid_question_renders:
  assumes "valid_question q"
  shows "renders (get_prop q (js ''correct''))"
proof -
  from assms obtain opts where "includes_arr opts (get_prop q (js ''correct''))"
    by (auto simp: valid_question_def split: option.splits json.splits)
  moreover from assms have "truthy (get_prop q (js ''correct''))"
    by (simp add: valid_question_def)
  ultimately obtain x where "strict_eq (Some x) (get_prop q (js ''correct''))"
    using includes_arr_truthy by blast
  then show ?thesis using strict_eq_renders by blast
qed

text \<open>The loop returns when the questions are valid and the answers convert to strings.\<close>

lemma forEach_question_returns:
  assumes "list_all valid_question qs"
    and "\<forall>j < length qs. renders (get_index answers (i + j))"
  shows "\<exists>r. forEach_question answers i qs (sc, w, d) = Some r"
  using assms
proof (induction qs arbitrary: i sc w d)
  case Nil
  show ?case by simp
next
  case (Cons q qs)
  then have q: "valid_question q" and qs: "list_all valid_question qs" by simp_all
  from q have nn: "q \<noteq> JNull" by (simp add: valid_question_def)
  from Cons.prems(2) have a: "renders (get_index answers i)" by force
  have rest: "\<forall>j < length qs. renders (get_index answers (i + 1 + j))"
  proof (intro allI impI)
    fix j
    assume "j < length qs"
    then have "Suc j < length (q # qs)" by simp
    with Cons.prems(2) have "renders (get_index answers (i + Suc j))" by blast
    then show "renders (get_index answers (i + 1 + j))" by simp
  qed
  show ?case
    using nn a valid_question_renders [OF q] Cons.IH [OF qs rest] by simp
qed

lemma correct_count_card:
  "correct_count answers quiz = card {i. i < length quiz \<and> answer_correct answers i (quiz ! i)}"
proof -
  have "{i. i < length (enumerate 0 quiz)
            \<and> (\<lambda>(j, q). answer_correct answers j q) (enumerate 0 quiz ! i)}
          = {i. i < length quiz \<and> answer_correct answers i (quiz ! i)}"
    by (auto simp: nth_enumerate_eq)
  then show ?thesis by (simp only: correct_count_def length_filter_conv_card)
qed

text \<open>What a submission answered with status 200 has done, in closed form.\<close>

lemma quiz_submit_200:
  assumes "quiz_submit now body st = (st', Reply 200 b)"
  shows "\<exists>quiz answers.
           currentQuiz st = Some quiz \<and> get_prop body (js ''answers'') = Some answers
           \<and> \<not> rejected body st
           \<and> st' = st \<lparr> quizResults := quizResults st @ [result_of now body quiz answers] \<rparr>
           \<and> b = QuizSubmitted (correct_count answers quiz) (length quiz)
                   (percentage_of (correct_count answers quiz) (length quiz))
                   (wrong_answers_of answers quiz)"
proof -
  from assms have h:
    "\<not> (\<not> stringifiable (or_not_provided (get_prop body (js ''name'')))
        \<or> \<not> stringifiable (or_not_provided (get_prop body (js ''surname'')))
        \<or> \<not> renders (length_or_zero (get_prop body (js ''answers''))))"
    by (auto simp: quiz_submit_def split: if_splits)
  from assms h have g:
    "\<not> (\<not> truthy (get_prop body (js ''name'')) \<or> \<not> truthy (get_prop body (js ''surname''))
        \<or> \<not> truthy (get_prop body (js ''answers'')))"
    by (auto simp: quiz_submit_def split: if_splits)
  from assms h g obtain quiz where quiz: "currentQuiz st = Some quiz"
    by (cases "currentQuiz st") (auto simp: quiz_submit_def)
  from g obtain answers where answers: "get_prop body (js ''answers'') = Some answers"
    by (cases "get_prop body (js ''answers'')") auto
  from assms h g quiz answers have len:
    "strict_eq (get_length answers) (Some (JNum (Finite (of_nat (length quiz)))))"
    by (auto simp: quiz_submit_def split: if_splits)
  from assms h g quiz answers len obtain r where
    "forEach_question answers 0 quiz (0, [], []) = Some r"
    by (cases "forEach_question answers 0 quiz (0, [], [])") (auto simp: quiz_submit_def)
  with forEach_question_Some [of answers 0 quiz 0 "[]" "[]" r] have loop:
    "forEach_question answers 0 quiz (0, [], []) =
       Some (correct_count answers quiz, wrong_answers_of answers quiz,
             detailed_results_of answers quiz)"
    by (simp add: correct_count_def wrong_answers_of_def detailed_results_of_def)
  from g quiz answers len have "\<not> rejected body st" by (simp add: rejected_def)
  moreover from assms h g quiz answers len loop have
    "st' = st \<lparr> quizResults := quizResults st @ [result_of now body quiz answers] \<rparr>"
    "b = QuizSubmitted (correct_count answers quiz) (length quiz)
           (percentage_of (correct_count answers quiz) (length quiz))
           (wrong_answers_of answers quiz)"
    by (simp_all add: quiz_submit_def result_of_def)
  ultimately show ?thesis using quiz answers by simp
qed

text \<open>
  What the handler does with a submission that passes the three guards, when the values
  that the log lines render convert to strings.
\<close>

lemma quiz_submit_accepted:
  assumes "state_ok st" and "\<not> rejected body st"
    and "renders (get_prop body (js ''name''))" and "renders (get_prop body (js ''surname''))"
    and "renders (length_or_zero (get_prop body (js ''answers'')))"
    and "\<forall>i < length (the (currentQuiz st)).
            renders (get_index (the (get_prop body (js ''answers''))) i)"
  shows "\<exists>quiz answers.
           currentQuiz st = Some quiz \<and> get_prop body (js ''answers'') = Some answers
           \<and> quiz_submit now body st =
               (st \<lparr> quizResults := quizResults st @ [result_of now body quiz answers] \<rparr>,
                Reply 200 (QuizSubmitted (correct_count answers quiz) (length quiz)
                  (percentage_of (correct_count answers quiz) (length quiz))
                  (wrong_answers_of answers quiz)))"
proof -
  from assms(2) obtain quiz where quiz: "currentQuiz st = Some quiz"
    by (auto simp: rejected_def split: option.splits)
  from assms(2) have t: "truthy (get_prop body (js ''name''))"
    "truthy (get_prop body (js ''surname''))" "truthy (get_prop body (js ''answers''))"
    by (auto simp: rejected_def)
  then obtain answers where answers: "get_prop body (js ''answers'') = Some answers"
    by (cases "get_prop body (js ''answers'')") auto
  from assms(2) quiz answers have len:
    "strict_eq (get_length answers) (Some (JNum (Finite (of_nat (length quiz)))))"
    by (simp add: rejected_def)
  from assms(1) quiz have valid: "list_all valid_question quiz" by (simp add: state_ok_def)
  from assms(6) quiz answers have "\<forall>j < length quiz. renders (get_index answers (0 + j))"
    by simp
  from forEach_question_returns [OF valid this, of 0 "[]" "[]"] obtain r where
    "forEach_question answers 0 quiz (0, [], []) = Some r"
    by blast
  with forEach_question_Some [of answers 0 quiz 0 "[]" "[]" r] have loop:
    "forEach_question answers 0 quiz (0, [], []) =
       Some (correct_count answers quiz, wrong_answers_of answers quiz,
             detailed_results_of answers quiz)"
    by (simp add: correct_count_def wrong_answers_of_def detailed_results_of_def)
  show ?thesis
    using quiz answers t len loop assms(3,4,5)
    by (simp add: quiz_submit_def result_of_def stringifiable_or_not_provided)
qed

lemma quiz_submit_rejected:
  assumes "rejected body st"
    and "renders (get_prop body (js ''name''))" and "renders (get_prop body (js ''surname''))"
    and "renders (length_or_zero (get_prop body (js ''answers'')))"
  shows "\<exists>m. quiz_submit now body st = (st, Reply 400 (ErrorBody m))"
  using assms
  by (auto simp: quiz_submit_def rejected_def Let_def stringifiable_or_not_provided
      split: option.splits)

text \<open>A submission that passes the three guards is not answered with status 400.\<close>

lemma quiz_submit_not_rejected:
  assumes "\<not> rejected body st"
  shows "status (snd (quiz_submit now body st)) \<noteq> 400"
  using assms
  by (auto simp: quiz_submit_def rejected_def Let_def split: option.splits)

text \<open>A conversion that throws in lines 210 to 212 ends the request before any guard.\<close>

lemma quiz_submit_log_throws:
  assumes "\<not> renders (get_prop body (js ''name'')) \<or> \<not> renders (get_prop body (js ''surname''))
           \<or> \<not> renders (length_or_zero (get_prop body (js ''answers'')))"
  shows "quiz_submit now body st = (st, Reply 500 InternalServerError)"
  using assms by (auto simp: quiz_submit_def stringifiable_or_not_provided)

lemma quiz_submit_keeps_quiz: "currentQuiz (fst (quiz_submit now body st)) = currentQuiz st"
  by (auto simp: quiz_submit_def Let_def split: option.splits)

lemma quiz_submit_state_ok:
  assumes "state_ok st"
  shows "state_ok (fst (quiz_submit now body st))"
  using assms by (simp add: state_ok_def quiz_submit_keeps_quiz)

text \<open>The values that \<open>!v\<close> takes for missing.\<close>

lemma not_truthy_iff:
  "\<not> truthy v \<longleftrightarrow>
     v = None \<or> v = Some JNull \<or> v = Some (JBool False) \<or> v = Some (JNum (Finite 0))
     \<or> v = Some (JNum NaN) \<or> v = Some (JStr [])"
  by (cases v rule: truthy.cases) auto

lemma initial_state_ok: "state_ok initial_state"
  by (simp add: state_ok_def initial_state_def)

lemma sample_state_ok: "state_ok sample_state"
  by (simp add: state_ok_def sample_state_def valid_sample_question)

lemma sample_body_fields:
  "get_prop sample_body (js ''name'') = Some (JStr (js ''Ann''))"
  "get_prop sample_body (js ''surname'') = Some (JStr (js ''Lee''))"
  "get_prop sample_body (js ''answers'') = Some (JArr [JStr (js ''b'')])"
  by (simp_all add: sample_body_def)

lemma sample_body_not_rejected: "\<not> rejected sample_body sample_state"
  by (simp add: rejected_def sample_body_fields sample_state_def)

lemma empty_name_body_fields:
  "get_prop empty_name_body (js ''name'') = Some (JStr [])"
  "get_prop empty_name_body (js ''surname'') = Some (JStr (js ''Lee''))"
  "get_prop empty_name_body (js ''answers'') = Some (JArr [JStr (js ''b'')])"
  by (simp_all add: empty_name_body_def)

lemma quiz_submit_sample_body_accepted:
  "quiz_submit timestamp sample_body sample_state
     = (sample_state \<lparr> quizResults := quizResults sample_state @
            [result_of timestamp sample_body [sample_question] (JArr [JStr (js ''b'')])] \<rparr>,
        Reply 200 (QuizSubmitted (correct_count (JArr [JStr (js ''b'')]) [sample_question])
                  (length [sample_question])
                  (percentage_of (correct_count (JArr [JStr (js ''b'')]) [sample_question])
                     (length [sample_question]))
                  (wrong_answers_of (JArr [JStr (js ''b'')]) [sample_question])))"
proof -
  have "\<forall>i < length (the (currentQuiz sample_state)).
          renders (get_index (the (get_prop sample_body (js ''answers''))) i)"
    by (simp add: sample_body_fields sample_state_def)
  from quiz_submit_accepted [OF sample_state_ok sample_body_not_rejected _ _ _ this, of timestamp]
  show ?thesis by (simp add: sample_body_fields sample_state_def)
qed

text \<open>
  Claim C6, as the service has it by design. Take a submission whose \<open>name\<close>, \<open>surname\<close>
  and \<open>answers.length\<close> convert to strings, so that the log lines 210 to 212 return, in a
  reachable state. It is answered with status 400, and nothing is appended to the results,
  exactly when \<open>name\<close>, \<open>surname\<close> or \<open>answers\<close> is missing or falsy (\<open>null\<close>, \<open>false\<close>, \<open>0\<close>,
  the empty string), or there is no current quiz, or \<open>answers.length\<close> is not the number of
  questions. In every other case, if each \<open>answers[i]\<close> converts to a string, so that the
  log line 240 returns, one record is appended and the answer has status 200 with the
  score, the total, the percentage and the wrong answers, which are those of the record.
\<close>

theorem submission_rejected_exactly_when:
  assumes "state_ok st" and "quiz_submit now body st = (st', r)"
    and "renders (get_prop body (js ''name''))" and "renders (get_prop body (js ''surname''))"
    and "renders (length_or_zero (get_prop body (js ''answers'')))"
  shows "(status r = 400 \<longleftrightarrow>
            \<not> truthy (get_prop body (js ''name'')) \<or> \<not> truthy (get_prop body (js ''surname''))
            \<or> \<not> truthy (get_prop body (js ''answers'')) \<or> currentQuiz st = None
            \<or> \<not> strict_eq (get_length (the (get_prop body (js ''answers''))))
                  (Some (JNum (Finite (of_nat (length (the (currentQuiz st))))))))
         \<and> (status r = 400 \<longrightarrow> st' = st \<and> (\<exists>m. r = Reply 400 (ErrorBody m)))
         \<and> (status r \<noteq> 400
              \<and> (\<forall>i < length (the (currentQuiz st)).
                     renders (get_index (the (get_prop body (js ''answers''))) i)) \<longrightarrow>
              (\<exists>res wrongAnswers.
                 st' = st \<lparr> quizResults := quizResults st @ [res] \<rparr>
                 \<and> r = Reply 200 (QuizSubmitted (score res) (total res)
                                     (percentage res) wrongAnswers)))"
proof (cases "rejected body st")
  case True
  then obtain m where "quiz_submit now body st = (st, Reply 400 (ErrorBody m))"
    using quiz_submit_rejected [OF _ assms(3,4,5)] by blast
  with assms(2) have "st' = st" "r = Reply 400 (ErrorBody m)" by simp_all
  moreover from True have
    "\<not> truthy (get_prop body (js ''name'')) \<or> \<not> truthy (get_prop body (js ''surname''))
     \<or> \<not> truthy (get_prop body (js ''answers'')) \<or> currentQuiz st = None
     \<or> \<not> strict_eq (get_length (the (get_prop body (js ''answers''))))
           (Some (JNum (Finite (of_nat (length (the (currentQuiz st)))))))"
    by (auto simp: rejected_def split: option.splits)
  ultimately show ?thesis by simp
next
  case False
  have not400: "status r \<noteq> 400"
    using quiz_submit_not_rejected [OF False, of now] assms(2) by simp
  have guards: "\<not> (\<not> truthy (get_prop body (js ''name'')) \<or> \<not> truthy (get_prop body (js ''surname''))
     \<or> \<not> truthy (get_prop body (js ''answers'')) \<or> currentQuiz st = None
     \<or> \<not> strict_eq (get_length (the (get_prop body (js ''answers''))))
           (Some (JNum (Finite (of_nat (length (the (currentQuiz st))))))))"
    using False by (auto simp: rejected_def split: option.splits)
  have appended: "\<exists>res wrongAnswers.
                 st' = st \<lparr> quizResults := quizResults st @ [res] \<rparr>
                 \<and> r = Reply 200 (QuizSubmitted (score res) (total res)
                                     (percentage res) wrongAnswers)"
    if conv: "\<forall>i < length (the (currentQuiz st)).
                 renders (get_index (the (get_prop body (js ''answers''))) i)"
  proof -
    from quiz_submit_accepted [OF assms(1) False assms(3,4,5) conv, of now] assms(2)
    obtain quiz answers where
      "st' = st \<lparr> quizResults := quizResults st @ [result_of now body quiz answers] \<rparr>"
      "r = Reply 200 (QuizSubmitted (correct_count answers quiz) (length quiz)
                    (percentage_of (correct_count answers quiz) (length quiz))
                    (wrong_answers_of answers quiz))"
      by auto
    then have
      "st' = st \<lparr> quizResults := quizResults st @ [result_of now body quiz answers] \<rparr>
       \<and> r = Reply 200 (QuizSubmitted (score (result_of now body quiz answers))
                          (total (result_of now body quiz answers))
                          (percentage (result_of now body quiz answers))
                          (wrong_answers_of answers quiz))"
      by (simp add: result_of_def)
    then show ?thesis by blast
  qed
  from not400 guards appended show ?thesis by blast
qed

theorem submission_rejected_exactly_when_witness:
  "state_ok sample_state
   \<and> renders (get_prop sample_body (js ''name''))
   \<and> renders (get_prop sample_body (js ''surname''))
   \<and> renders (length_or_zero (get_prop sample_body (js ''answers'')))
   \<and> renders (get_index (the (get_prop sample_body (js ''answers''))) 0)
   \<and> length (the (currentQuiz sample_state)) = 1
   \<and> status (snd (quiz_submit timestamp sample_body sample_state)) = 200
   \<and> truthy (get_prop sample_body (js ''name''))
   \<and> (\<exists>res wrongAnswers.
         fst (quiz_submit timestamp sample_body sample_state)
           = sample_state \<lparr> quizResults := quizResults sample_state @ [res] \<rparr>
         \<and> snd (quiz_submit timestamp sample_body sample_state)
           = Reply 200 (QuizSubmitted (score res) (total res) (percentage res)
                          wrongAnswers))
   \<and> renders (get_prop empty_name_body (js ''name''))
   \<and> renders (get_prop empty_name_body (js ''surname''))
   \<and> renders (length_or_zero (get_prop empty_name_body (js ''answers'')))
   \<and> \<not> truthy (get_prop empty_name_body (js ''name''))
   \<and> status (snd (quiz_submit timestamp empty_name_body sample_state)) = 400
   \<and> fst (quiz_submit timestamp empty_name_body sample_state) = sample_state"
proof -
  have run: "quiz_submit timestamp sample_body sample_state
          = (fst (quiz_submit timestamp sample_body sample_state),
             snd (quiz_submit timestamp sample_body sample_state))"
    by simp
  have conv: "renders (get_prop sample_body (js ''name''))"
    "renders (get_prop sample_body (js ''surname''))"
    "renders (length_or_zero (get_prop sample_body (js ''answers'')))"
    by (simp_all add: sample_body_fields)
  have one: "length (the (currentQuiz sample_state)) = 1"
    "renders (get_index (the (get_prop sample_body (js ''answers''))) 0)"
    by (simp_all add: sample_body_fields sample_state_def)
  then have each: "\<forall>i < length (the (currentQuiz sample_state)).
                     renders (get_index (the (get_prop sample_body (js ''answers''))) i)"
    by simp
  have ok: "\<not> (\<not> truthy (get_prop sample_body (js ''name''))
            \<or> \<not> truthy (get_prop sample_body (js ''surname''))
            \<or> \<not> truthy (get_prop sample_body (js ''answers'')) \<or> currentQuiz sample_state = None
            \<or> \<not> strict_eq (get_length (the (get_prop sample_body (js ''answers''))))
                  (Some (JNum (Finite (of_nat (length (the (currentQuiz sample_state))))))))"
    by (simp add: sample_body_fields sample_state_def)
  from submission_rejected_exactly_when [OF sample_state_ok run conv] ok
  have a: "status (snd (quiz_submit timestamp sample_body sample_state)) \<noteq> 400" by blast
  with submission_rejected_exactly_when [OF sample_state_ok run conv] each
  have b: "\<exists>res wrongAnswers.
         fst (quiz_submit timestamp sample_body sample_state)
           = sample_state \<lparr> quizResults := quizResults sample_state @ [res] \<rparr>
         \<and> snd (quiz_submit timestamp sample_body sample_state)
           = Reply 200 (QuizSubmitted (score res) (total res) (percentage res)
                          wrongAnswers)"
    by blast
  then have c: "status (snd (quiz_submit timestamp sample_body sample_state)) = 200" by auto
  have d: "truthy (get_prop sample_body (js ''name''))" by (simp add: sample_body_fields)
  have run': "quiz_submit timestamp empty_name_body sample_state
          = (fst (quiz_submit timestamp empty_name_body sample_state),
             snd (quiz_submit timestamp empty_name_body sample_state))"
    by simp
  have conv': "renders (get_prop empty_name_body (js ''name''))"
    "renders (get_prop empty_name_body (js ''surname''))"
    "renders (length_or_zero (get_prop empty_name_body (js ''answers'')))"
    by (simp_all add: empty_name_body_fields)
  have e: "\<not> truthy (get_prop empty_name_body (js ''name''))"
    by (simp add: empty_name_body_fields)
  with submission_rejected_exactly_when [OF sample_state_ok run' conv']
  have f: "status (snd (quiz_submit timestamp empty_name_body sample_state)) = 400" by blast
  with submission_rejected_exactly_when [OF sample_state_ok run' conv']
  have g: "fst (quiz_submit timestamp empty_name_body sample_state) = sample_state" by blast
  from sample_state_ok conv one c d b conv' e f g show ?thesis by blast
qed

text \<open>
  Claim C6 as stated fails: with a quiz of one question current, the submission
  \<open>{name: "", surname: "Lee", answers: ["b"]}\<close> has all three fields present and as many
  answers as there are questions, and it is rejected with status 400.
\<close>

theorem present_empty_name_rejected:
  "get_prop empty_name_body (js ''name'') = Some (JStr [])
   \<and> get_prop empty_name_body (js ''surname'') = Some (JStr (js ''Lee''))
   \<and> get_prop empty_name_body (js ''answers'') = Some (JArr [JStr (js ''b'')])
   \<and> currentQuiz sample_state = Some [sample_question]
   \<and> length [JStr (js ''b'')] = length [sample_question]
   \<and> quiz_submit timestamp empty_name_body sample_state
       = (sample_state, Reply 400 (ErrorBody (js ''Name, surname, and answers required'')))"
  by (simp add: empty_name_body_fields quiz_submit_def sample_state_def
        stringifiable_or_not_provided)

text \<open>
  When the values that lines 210 to 212 render convert to strings, a submission whose
  \<open>name\<close> or \<open>surname\<close> is the empty string is answered with status 400 and the message
  for missing fields, and nothing is appended to the results.
\<close>

lemma empty_name_or_surname_rejected:
  assumes "get_prop body (js ''name'') = Some (JStr [])
           \<or> get_prop body (js ''surname'') = Some (JStr [])"
    and "renders (get_prop body (js ''name''))" and "renders (get_prop body (js ''surname''))"
    and "renders (length_or_zero (get_prop body (js ''answers'')))"
  shows "quiz_submit now body st
           = (st, Reply 400 (ErrorBody (js ''Name, surname, and answers required'')))"
  using assms by (auto simp: quiz_submit_def stringifiable_or_not_provided)

lemma unconvertible_surname_body_fields:
  "get_prop unconvertible_surname_body (js ''name'') = Some (JStr [])"
  "get_prop unconvertible_surname_body (js ''surname'')
     = Some (JObj [(js ''toString'', JNum (Finite 1))])"
  "get_prop unconvertible_surname_body (js ''answers'') = Some (JArr [JStr (js ''b'')])"
  by (simp_all add: unconvertible_surname_body_def)

lemma parse_unconvertible_surname_text:
  "JSON_parse unconvertible_surname_text = Some unconvertible_surname_body"
  unfolding unconvertible_surname_text_def unconvertible_surname_body_def by code_simp

text \<open>
  Claim C10. A submission whose \<open>name\<close> or \<open>surname\<close> is present and is the empty string
  should be answered with status 400 and the message for missing fields, as the guard of
  line 215 does for it. The handler does not get that far when the other field does not
  convert to a string: line 211 renders \<open>surname\<close> for the log before the guard runs, the
  conversion throws, and the error middleware answers 500. So it is for the body
  \<open>{"name":"","surname":{"toString":1},"answers":["b"]}\<close>. Nothing is appended to the
  results.
\<close>

theorem empty_name_unconvertible_surname_fails:
  assumes "get_prop body (js ''name'') = Some (JStr [])"
    and "get_prop body (js ''surname'') = Some v" and "\<not> stringifiable v"
  shows "quiz_submit now body st = (st, Reply 500 InternalServerError)"
  using assms falsy_stringifiable [of v] by (auto simp: quiz_submit_def or_not_provided_def)

theorem empty_name_unconvertible_surname_fails_witness:
  "JSON_parse unconvertible_surname_text = Some unconvertible_surname_body
   \<and> get_prop unconvertible_surname_body (js ''name'') = Some (JStr [])
   \<and> get_prop unconvertible_surname_body (js ''surname'')
       = Some (JObj [(js ''toString'', JNum (Finite 1))])
   \<and> \<not> stringifiable (JObj [(js ''toString'', JNum (Finite 1))])
   \<and> quiz_submit timestamp unconvertible_surname_body sample_state
       = (sample_state, Reply 500 InternalServerError)
   \<and> status (snd (quiz_submit timestamp unconvertible_surname_body sample_state)) \<noteq> 400"
proof -
  have u: "\<not> stringifiable (JObj [(js ''toString'', JNum (Finite 1))])" by simp
  from empty_name_unconvertible_surname_fails
    [OF unconvertible_surname_body_fields(1) unconvertible_surname_body_fields(2) u,
     of timestamp sample_state]
  show ?thesis
    using parse_unconvertible_surname_text u by (simp add: unconvertible_surname_body_fields)
qed

lemma detailed_results_nth:
  assumes "i < length quiz"
  shows "detailed_results_of answers quiz ! i
           = detailed_entry answers i (quiz ! i) (answer_correct answers i (quiz ! i))"
  using assms by (simp add: detailed_results_of_def nth_enumerate_eq)

lemma wrong_answers_member:
  assumes "i < length quiz" and "\<not> answer_correct answers i (quiz ! i)"
  shows "wrong_entry answers i (quiz ! i) \<in> set (wrong_answers_of answers quiz)"
proof -
  have "(i, quiz ! i) \<in> set (enumerate 0 quiz)"
    using assms(1) by (auto simp: in_set_conv_nth nth_enumerate_eq intro!: exI [of _ i])
  then have "(i, quiz ! i) \<in> set (filter (\<lambda>(j, q). \<not> answer_correct answers j q) (enumerate 0 quiz))"
    using assms(2) by simp
  then show ?thesis unfolding wrong_answers_of_def by force
qed

text \<open>A blank answer is never the correct value of a question the validator accepted.\<close>

lemma blank_answer_incorrect:
  assumes "valid_question q" and "get_index answers i = Some (JStr [])"
  shows "\<not> answer_correct answers i q"
proof -
  from assms(1) have "truthy (get_prop q (js ''correct''))" by (simp add: valid_question_def)
  then have "\<not> strict_eq (Some (JStr [])) (get_prop q (js ''correct''))"
    by (cases "get_prop q (js ''correct'')" rule: truthy.cases) auto
  then show ?thesis using assms(2) by (simp add: answer_correct_def)
qed

lemma blank_answer_body_fields:
  "get_prop blank_answer_body (js ''name'') = Some (JStr (js ''Ann''))"
  "get_prop blank_answer_body (js ''surname'') = Some (JStr (js ''Lee''))"
  "get_prop blank_answer_body (js ''answers'') = Some (JArr [JStr []])"
  by (simp_all add: blank_answer_body_def)

lemma blank_answer_body_not_rejected: "\<not> rejected blank_answer_body sample_state"
  by (simp add: rejected_def blank_answer_body_fields sample_state_def)

text \<open>
  Claim C9. In every accepted submission (status 200, in a reachable state), if \<open>answers[i]\<close>
  is the empty string for a question \<open>i\<close>, then the entry of the detailed results for that
  question and an entry of the wrong answers for it both give \<open>No answer\<close> as the user's
  answer, and the question is scored incorrect: its correct value is truthy, so it is not
  the empty string.
\<close>

theorem blank_answer_recorded_as_no_answer:
  assumes "state_ok st" and "currentQuiz st = Some quiz"
    and "get_prop body (js ''answers'') = Some answers"
    and "quiz_submit now body st = (st', Reply 200 (QuizSubmitted sc n p wrongAnswers))"
    and "i < length quiz" and "get_index answers i = Some (JStr [])"
  shows "\<exists>res. st' = st \<lparr> quizResults := quizResults st @ [res] \<rparr>
           \<and> questionNumber (detailedResults res ! i) = i + 1
           \<and> userAnswer (detailedResults res ! i) = JStr (js ''No answer'')
           \<and> \<not> isCorrect (detailedResults res ! i)
           \<and> (\<exists>w \<in> set wrongAnswers.
                 questionNumber w = i + 1 \<and> userAnswer w = JStr (js ''No answer''))"
proof -
  from quiz_submit_200 [OF assms(4)] assms(2,3)
  have st': "st' = st \<lparr> quizResults := quizResults st @ [result_of now body quiz answers] \<rparr>"
    and w: "wrongAnswers = wrong_answers_of answers quiz"
    by auto
  from assms(1,2,5) have "valid_question (quiz ! i)"
    by (simp add: state_ok_def list_all_length)
  then have wrong: "\<not> answer_correct answers i (quiz ! i)"
    using assms(6) by (rule blank_answer_incorrect)
  have d: "detailedResults (result_of now body quiz answers) ! i
             = detailed_entry answers i (quiz ! i) False"
    using detailed_results_nth [OF assms(5), of answers] wrong by (simp add: result_of_def)
  have blank: "answer_or_default (get_index answers i) = JStr (js ''No answer'')"
    using assms(6) by (simp add: answer_or_default_def no_answer_def)
  have "wrong_entry answers i (quiz ! i) \<in> set wrongAnswers"
    using wrong_answers_member [OF assms(5) wrong] w by simp
  moreover have "questionNumber (wrong_entry answers i (quiz ! i)) = i + 1"
    "userAnswer (wrong_entry answers i (quiz ! i)) = JStr (js ''No answer'')"
    using blank by (simp_all add: wrong_entry_def)
  ultimately have "\<exists>w \<in> set wrongAnswers.
      questionNumber w = i + 1 \<and> userAnswer w = JStr (js ''No answer'')"
    by blast
  then show ?thesis
    using st' d blank by (intro exI [of _ "result_of now body quiz answers"])
      (simp add: detailed_entry_def)
qed

theorem blank_answer_recorded_as_no_answer_witness:
  "state_ok sample_state
   \<and> get_index (JArr [JStr []]) 0 = Some (JStr [])
   \<and> status (snd (quiz_submit timestamp blank_answer_body sample_state)) = 200
   \<and> reply_score (snd (quiz_submit timestamp blank_answer_body sample_state)) = Some 0
   \<and> (\<exists>res. fst (quiz_submit timestamp blank_answer_body sample_state)
               = sample_state \<lparr> quizResults := quizResults sample_state @ [res] \<rparr>
           \<and> questionNumber (detailedResults res ! 0) = 0 + 1
           \<and> userAnswer (detailedResults res ! 0) = JStr (js ''No answer'')
           \<and> \<not> isCorrect (detailedResults res ! 0))"
proof -
  have "\<forall>i < length (the (currentQuiz sample_state)).
          renders (get_index (the (get_prop blank_answer_body (js ''answers''))) i)"
    by (simp add: blank_answer_body_fields sample_state_def)
  from quiz_submit_accepted
    [OF sample_state_ok blank_answer_body_not_rejected _ _ _ this, of timestamp]
  have run: "quiz_submit timestamp blank_answer_body sample_state
      = (sample_state \<lparr> quizResults := quizResults sample_state @
            [result_of timestamp blank_answer_body [sample_question] (JArr [JStr []])] \<rparr>,
         Reply 200 (QuizSubmitted (correct_count (JArr [JStr []]) [sample_question])
                  (length [sample_question])
                  (percentage_of (correct_count (JArr [JStr []]) [sample_question])
                     (length [sample_question]))
                  (wrong_answers_of (JArr [JStr []]) [sample_question])))"
    by (simp add: blank_answer_body_fields sample_state_def)
  have cur: "currentQuiz sample_state = Some [sample_question]" by (simp add: sample_state_def)
  have i: "0 < length [sample_question]" by simp
  have blank: "get_index (JArr [JStr []]) 0 = Some (JStr [])" by simp
  have zero: "correct_count (JArr [JStr []]) [sample_question] = 0"
    by (simp add: correct_count_def enumerate_simps answer_correct_def sample_question_fields)
  from blank_answer_recorded_as_no_answer
    [OF sample_state_ok cur blank_answer_body_fields(3) run i blank]
  show ?thesis using sample_state_ok run zero by auto
qed

section \<open>Rounding to binary64\<close>

lemma pow2_less_imp: "(2::rat) powi m < 2 powi n \<Longrightarrow> m < n"
proof (rule ccontr)
  assume a: "(2::rat) powi m < 2 powi n" and "\<not> m < n"
  then have "n \<le> m" by simp
  then have "(2::rat) powi n \<le> 2 powi m" by (rule power_int_increasing) simp
  with a show False by simp
qed

lemma rne_error: "\<bar>of_int (rne y) - y\<bar> \<le> 1 / 2"
proof -
  have "of_int \<lfloor>y\<rfloor> \<le> y" "y < of_int \<lfloor>y\<rfloor> + 1" by linarith+
  then show ?thesis by (auto simp: rne_def Let_def)
qed

text \<open>\<open>ilog2\<close> is the binary exponent.\<close>

lemma ilog2_bounds:
  assumes "0 < x"
  shows "2 powi (ilog2 x) \<le> x \<and> x < 2 powi (ilog2 x + 1)"
proof -
  obtain p q where pq: "quotient_of x = (p, q)" by (cases "quotient_of x")
  have q: "0 < q" using pq by (rule quotient_of_denom_pos)
  have x: "x = of_int p / of_int q" using pq by (rule quotient_of_div)
  have p: "0 < p" using assms q x by (simp add: zero_less_divide_iff)
  define bp where "bp = floorlog 2 (nat p)"
  define bq where "bq = floorlog 2 (nat q)"
  have P: "2 ^ (bp - 1) \<le> nat p" "nat p < 2 ^ bp"
    using floorlog_bounds [of "nat p" 2] p by (simp_all add: bp_def)
  have Q: "2 ^ (bq - 1) \<le> nat q" "nat q < 2 ^ bq"
    using floorlog_bounds [of "nat q" 2] q by (simp_all add: bq_def)
  have bp1: "1 \<le> bp" using p by (simp add: bp_def floorlog_def)
  have bq1: "1 \<le> bq" using q by (simp add: bq_def floorlog_def)
  have Pr: "(2::rat) ^ (bp - 1) \<le> of_int p" "(of_int p :: rat) < 2 ^ bp"
  proof -
    have "(of_nat (2 ^ (bp - 1)) :: rat) \<le> of_nat (nat p)"
      using P(1) by (simp only: of_nat_le_iff)
    then show "(2::rat) ^ (bp - 1) \<le> of_int p" using p by simp
    have "(of_nat (nat p) :: rat) < of_nat (2 ^ bp)" using P(2) by (simp only: of_nat_less_iff)
    then show "(of_int p :: rat) < 2 ^ bp" using p by simp
  qed
  have Qr: "(2::rat) ^ (bq - 1) \<le> of_int q" "(of_int q :: rat) < 2 ^ bq"
  proof -
    have "(of_nat (2 ^ (bq - 1)) :: rat) \<le> of_nat (nat q)"
      using Q(1) by (simp only: of_nat_le_iff)
    then show "(2::rat) ^ (bq - 1) \<le> of_int q" using q by simp
    have "(of_nat (nat q) :: rat) < of_nat (2 ^ bq)" using Q(2) by (simp only: of_nat_less_iff)
    then show "(of_int q :: rat) < 2 ^ bq" using q by simp
  qed
  define d where "d = int bp - int bq"
  have qpos: "(0::rat) < of_int q" using q by simp
  have upper: "x < 2 powi (d + 1)"
  proof -
    have "x < 2 ^ bp / of_int q"
      unfolding x using Pr(2) qpos by (simp add: divide_strict_right_mono)
    also have "\<dots> \<le> 2 ^ bp / 2 ^ (bq - 1)" using Qr(1) by (simp add: frac_le)
    also have "\<dots> = 2 powi (int bp - int (bq - 1))" by (simp add: power_int_diff)
    also have "int bp - int (bq - 1) = d + 1" using bq1 by (simp add: d_def)
    finally show ?thesis .
  qed
  have lower: "2 powi (d - 1) < x"
  proof -
    have "d - 1 = int (bp - 1) - int bq" using bp1 unfolding d_def by arith
    then have "2 powi (d - 1) = (2::rat) powi (int (bp - 1) - int bq)" by simp
    also have "\<dots> = 2 ^ (bp - 1) / 2 ^ bq" by (simp add: power_int_diff)
    also have "\<dots> < 2 ^ (bp - 1) / of_int q"
      using Qr(2) qpos by (simp add: divide_strict_left_mono)
    also have "\<dots> \<le> x" unfolding x using Pr(1) qpos by (simp add: divide_right_mono)
    finally show ?thesis .
  qed
  have il: "ilog2 x = (if 2 powi d \<le> x then d else d - 1)"
    by (simp add: ilog2_def pq bp_def bq_def d_def Let_def)
  show ?thesis
  proof (cases "2 powi d \<le> x")
    case True
    then show ?thesis using upper il by simp
  next
    case False
    then show ?thesis using lower il by simp
  qed
qed

lemma ilog2_ge:
  assumes "2 powi m \<le> x"
  shows "m \<le> ilog2 x"
proof -
  have "(0::rat) < 2 powi m" by simp
  then have "0 < x" using assms by linarith
  then have "x < 2 powi (ilog2 x + 1)" using ilog2_bounds by blast
  then have "(2::rat) powi m < 2 powi (ilog2 x + 1)" using assms by linarith
  then have "m < ilog2 x + 1" by (rule pow2_less_imp)
  then show ?thesis by simp
qed

text \<open>
  In the normal range the result is finite and its relative error is at most \<open>2^-53\<close>.
\<close>

lemma round_to_double_normal:
  assumes "2 powi (- 1022) \<le> x" and "x \<le> 2 powi 1000"
  shows "\<exists>y. round_to_double x = Finite y \<and> \<bar>y - x\<bar> \<le> x / 2 ^ 53"
proof -
  have xpos: "0 < x"
  proof -
    have "(0::rat) < 2 powi (- 1022)" by simp
    then show ?thesis using assms(1) by linarith
  qed
  define e where "e = ilog2 x"
  have e: "- 1022 \<le> e" using ilog2_ge [OF assms(1)] by (simp add: e_def)
  have B: "2 powi e \<le> x" "x < 2 powi (e + 1)"
    using ilog2_bounds [OF xpos] by (simp_all add: e_def)
  define u :: rat where "u = 2 powi (e - 52)"
  have upos: "0 < u" by (simp add: u_def)
  have k: "max (e - 52) (- 1074) = e - 52" using e by simp
  define y where "y = of_int (rne (x / u)) * u"
  have "\<bar>of_int (rne (x / u)) - x / u\<bar> \<le> 1 / 2" by (rule rne_error)
  then have "\<bar>of_int (rne (x / u)) - x / u\<bar> * u \<le> 1 / 2 * u"
    using upos by (simp add: mult_right_mono)
  moreover have "\<bar>of_int (rne (x / u)) - x / u\<bar> * u = \<bar>y - x\<bar>"
  proof -
    have "\<bar>of_int (rne (x / u)) - x / u\<bar> * u = \<bar>(of_int (rne (x / u)) - x / u) * u\<bar>"
      using upos by (simp add: abs_mult)
    also have "(of_int (rne (x / u)) - x / u) * u = y - x"
      using upos by (simp add: y_def algebra_simps)
    finally show ?thesis .
  qed
  ultimately have err: "\<bar>y - x\<bar> \<le> u / 2" by simp
  have "u / 2 = 2 powi e / 2 ^ 53"
  proof -
    have "(2::rat) powi (e - 52) = 2 powi e / 2 powi 52" by (simp add: power_int_diff)
    then show ?thesis by (simp add: u_def)
  qed
  also have "\<dots> \<le> x / 2 ^ 53" using B(1) by (simp add: divide_right_mono)
  finally have u2: "u / 2 \<le> x / 2 ^ 53" .
  have err': "\<bar>y - x\<bar> \<le> x / 2 ^ 53" using err u2 by linarith
  have "x / 2 ^ 53 \<le> x" using xpos by (simp add: field_simps)
  then have "y \<le> 2 * x" using err' by linarith
  also have "\<dots> \<le> 2 * 2 powi 1000" using assms(2) by simp
  also have "\<dots> < 2 powi 1024"
  proof -
    have "(2::rat) * 2 powi 1000 = 2 powi 1001"
      by (simp add: power_int_add [of 2 1 1000, simplified])
    moreover have "(2::rat) powi 1001 < 2 powi 1024"
      by (rule power_int_strict_increasing) simp_all
    ultimately show ?thesis by simp
  qed
  finally have noov: "\<not> 2 powi 1024 \<le> y" by simp
  have "round_to_double x = Finite y"
    using xpos noov k
    by (simp add: round_to_double_def Let_def e_def [symmetric] u_def [symmetric] y_def)
  then show ?thesis using err' by blast
qed

section \<open>The percentage\<close>

lemma floor_half: "\<lfloor>1 / 2 :: rat\<rfloor> = 0"
  by (rule floor_unique) simp_all

lemma percentage_of_zero: "0 < n \<Longrightarrow> percentage_of 0 n = Finite 0"
  by (simp add: percentage_of_def js_div_nat_def round_to_double_def js_mul_const_def Math_round_def
        floor_half)

text \<open>
  The product \<open>(score / n) * 100\<close> as the doubles compute it is within \<open>1 / (2 n)\<close> of the
  exact value.
\<close>

lemma double_product_error:
  assumes n: "0 < n" "n < 2 ^ 32" and sc: "0 < sc" "sc \<le> n"
  shows "\<exists>y. js_mul_const (js_div_nat sc n) 100 = Finite y \<and> 0 \<le> y
           \<and> \<bar>y - 100 * of_nat sc / of_nat n\<bar> < 1 / of_nat (2 * n)"
proof -
  define x :: rat where "x = of_nat sc / of_nat n"
  have npos: "(0::rat) < of_nat n" using n by simp
  have nlt: "(of_nat n :: rat) < 2 ^ 32"
  proof -
    have "(of_nat n :: rat) < of_nat (2 ^ 32)" using n(2) by (simp only: of_nat_less_iff)
    then show ?thesis by simp
  qed
  have x1: "x \<le> 1" using sc npos by (simp add: x_def)
  have xlow: "1 / 2 ^ 32 < x"
  proof -
    have "1 / 2 ^ 32 < 1 / (of_nat n :: rat)" using npos nlt by (simp add: frac_less2)
    also have "\<dots> \<le> x" using sc npos by (simp add: x_def divide_right_mono)
    finally show ?thesis .
  qed
  have xpos: "0 < x" using xlow by (simp add: less_trans [OF _ xlow])
  have small: "(2::rat) powi (- 1022) \<le> 1 / 2 ^ 33"
  proof -
    have "(2::rat) powi (- 1022) \<le> 2 powi (- 33)" by (rule power_int_increasing) simp_all
    also have "\<dots> = 1 / 2 ^ 33" by (simp add: power_int_minus field_simps)
    finally show ?thesis .
  qed
  have big: "(200::rat) \<le> 2 powi 1000"
  proof -
    have "(200::rat) \<le> 2 powi 8" by simp
    also have "\<dots> \<le> 2 powi 1000" by (rule power_int_increasing) simp_all
    finally show ?thesis .
  qed
  have "2 powi (- 1022) \<le> x" using small xlow by simp
  moreover have "x \<le> 2 powi 1000" using x1 big by simp
  ultimately obtain a where a: "round_to_double x = Finite a" "\<bar>a - x\<bar> \<le> x / 2 ^ 53"
    using round_to_double_normal by blast
  have a_lo: "x / 2 \<le> a" and a_hi: "a \<le> 2 * x"
  proof -
    have "x / 2 ^ 53 \<le> x / 2" using xpos by (simp add: field_simps)
    then show "x / 2 \<le> a" "a \<le> 2 * x" using a(2) xpos by linarith+
  qed
  define y where "y = a * 100"
  have ylo: "2 powi (- 1022) \<le> y" using a_lo xlow small by (simp add: y_def)
  have yhi: "y \<le> 200" using a_hi x1 by (simp add: y_def)
  have "y \<le> 2 powi 1000" using yhi big by simp
  then obtain b where b: "round_to_double y = Finite b" "\<bar>b - y\<bar> \<le> y / 2 ^ 53"
    using round_to_double_normal [OF ylo] by blast
  have ypos: "0 < y" using a_lo xpos by (simp add: y_def)
  have bpos: "0 \<le> b"
  proof -
    have "y / 2 ^ 53 \<le> y" using ypos by (simp add: field_simps)
    then show ?thesis using b(2) ypos by linarith
  qed
  have e1: "\<bar>b - y\<bar> \<le> 200 / 2 ^ 53"
  proof -
    have "y / 2 ^ 53 \<le> 200 / 2 ^ 53" using yhi by (simp add: divide_right_mono)
    then show ?thesis using b(2) by linarith
  qed
  have e2: "\<bar>y - 100 * x\<bar> \<le> 100 / 2 ^ 53"
  proof -
    have "\<bar>y - 100 * x\<bar> = 100 * \<bar>a - x\<bar>" by (simp add: y_def abs_if)
    also have "\<dots> \<le> 100 * (x / 2 ^ 53)" using a(2) by simp
    also have "\<dots> \<le> 100 / 2 ^ 53" using x1 by simp
    finally show ?thesis .
  qed
  have "\<bar>b - 100 * x\<bar> \<le> 300 / 2 ^ 53" using e1 e2 by linarith
  also have "(300::rat) / 2 ^ 53 < 1 / 2 ^ 33" by simp
  also have "\<dots> < 1 / of_nat (2 * n)"
  proof -
    have "(of_nat (2 * n) :: rat) < 2 ^ 33" using nlt by simp
    moreover have "(0::rat) < of_nat (2 * n)" using npos by simp
    ultimately show ?thesis by (simp add: frac_less2)
  qed
  finally have "\<bar>b - 100 * x\<bar> < 1 / of_nat (2 * n)" .
  moreover have "js_mul_const (js_div_nat sc n) 100 = Finite b"
    using n a(1) b(1) by (simp add: js_div_nat_def js_mul_const_def x_def y_def)
  ultimately show ?thesis using bpos by (auto simp: x_def)
qed

text \<open>
  The percentage is the exact value rounded half up, unless the exact value lies halfway
  between two integers (\<open>200 score + n\<close> is a multiple of \<open>2 n\<close>): the product of the
  doubles can then lie just below the half, and the percentage is one less.
\<close>

lemma percentage_of_rounds:
  assumes n: "0 < n" "n < 2 ^ 32" and sc: "sc \<le> n"
  shows "\<exists>k. percentage_of sc n = Finite (of_int k) \<and> 0 \<le> k \<and> k \<le> 100
           \<and> (if (200 * sc + n) mod (2 * n) = 0
               then k = round_half_up (of_nat sc / of_nat n * 100)
                    \<or> k = round_half_up (of_nat sc / of_nat n * 100) - 1
               else k = round_half_up (of_nat sc / of_nat n * 100))"
proof (cases "sc = 0")
  case True
  have "(0 + n) mod (2 * n) \<noteq> 0" using n by simp
  moreover have "round_half_up (of_nat 0 / of_nat n * 100) = 0"
    by (simp add: round_half_up_def floor_half)
  ultimately show ?thesis
    using True percentage_of_zero [OF n(1)] by (intro exI [of _ 0]) simp
next
  case False
  then have sc0: "0 < sc" by simp
  obtain y where y: "js_mul_const (js_div_nat sc n) 100 = Finite y" "0 \<le> y"
    "\<bar>y - 100 * of_nat sc / of_nat n\<bar> < 1 / of_nat (2 * n)"
    using double_product_error [OF n sc0 sc] by blast
  define D :: rat where "D = of_nat (2 * n)"
  define N where "N = 200 * sc + n"
  define r where "r = int (N div (2 * n))"
  define m where "m = N mod (2 * n)"
  have Dpos: "0 < D" using n by (simp add: D_def)
  have D2: "2 \<le> D"
  proof -
    have "(of_nat 2 :: rat) \<le> of_nat (2 * n)" using n(1) by simp
    then show ?thesis by (simp add: D_def)
  qed
  define w :: rat where "w = of_nat sc / of_nat n * 100 + 1 / 2"
  have wN: "w = of_nat N / D" using n by (simp add: w_def N_def D_def field_simps)
  have "of_nat N = (of_nat (N div (2 * n) * (2 * n) + N mod (2 * n)) :: rat)"
    by (simp only: div_mult_mod_eq)
  also have "\<dots> = of_int r * D + of_nat m" by (simp add: r_def D_def m_def)
  finally have wr: "w = of_int r + of_nat m / D" using Dpos by (simp add: wN field_simps)
  have mD: "of_nat m + 1 \<le> D"
  proof -
    have "m < 2 * n" using n by (simp add: m_def)
    then have "m + 1 \<le> 2 * n" by simp
    then have "(of_nat (m + 1) :: rat) \<le> of_nat (2 * n)" by (simp only: of_nat_le_iff)
    then show ?thesis by (simp add: D_def)
  qed
  have m0: "(0::rat) \<le> of_nat m / D" using Dpos by simp
  have m1: "of_nat m / D \<le> 1 - 1 / D" using mD Dpos by (simp add: field_simps)
  have rfloor: "round_half_up (of_nat sc / of_nat n * 100) = r"
  proof -
    have "\<lfloor>w\<rfloor> = r"
    proof (rule floor_unique)
      show "of_int r \<le> w" using wr m0 by simp
      have "1 / D > 0" using Dpos by simp
      then show "w < of_int r + 1" using wr m1 by linarith
    qed
    then show ?thesis by (simp add: round_half_up_def w_def)
  qed
  define k where "k = \<lfloor>y + 1 / 2\<rfloor>"
  have pk: "percentage_of sc n = Finite (of_int k)"
    by (simp add: percentage_of_def y(1) Math_round_def k_def)
  have yw: "\<bar>(y + 1 / 2) - w\<bar> < 1 / D"
    using y(3) by (simp add: w_def D_def algebra_simps)
  have Dinv: "1 / D \<le> 1 / 2" using D2 Dpos by (simp add: field_simps)
  have k0: "0 \<le> k" using y(2) by (simp add: k_def)
  have zle: "w \<le> 100 + 1 / 2"
  proof -
    have "(of_nat sc :: rat) \<le> of_nat n" using sc by (simp only: of_nat_le_iff)
    then have "(of_nat sc :: rat) / of_nat n \<le> 1" using n by (simp add: field_simps)
    then show ?thesis by (simp add: w_def)
  qed
  have r100: "r \<le> 100"
  proof -
    have "of_int r \<le> w" using wr m0 by simp
    then have "(of_int r :: rat) < of_int 101" using zle by simp
    then have "r < 101" by (simp only: of_int_less_iff)
    then show ?thesis by simp
  qed
  show ?thesis
  proof (cases "m = 0")
    case True
    then have "w = of_int r" using wr by simp
    then have lo: "of_int r - 1 / D < y + 1 / 2" and hi: "y + 1 / 2 < of_int r + 1 / D"
      using yw by (simp_all add: abs_less_iff)
    have "of_int (r - 1) \<le> y + 1 / 2" using lo Dinv by simp
    moreover have "y + 1 / 2 < of_int r + 1" using hi Dinv by linarith
    ultimately have "k = r \<or> k = r - 1"
      unfolding k_def
      by (metis floor_unique floor_less_iff not_less of_int_diff of_int_1 diff_add_cancel)
    then show ?thesis
      using True pk k0 r100 rfloor m_def N_def by (intro exI [of _ k]) auto
  next
    case False
    then have "1 \<le> m" by simp
    then have "(of_nat 1 :: rat) \<le> of_nat m" by (simp only: of_nat_le_iff)
    then have "1 / D \<le> of_nat m / D" using Dpos by (simp add: divide_right_mono)
    then have "of_int r + 1 / D \<le> w" "w \<le> of_int r + 1 - 1 / D" using wr m1 by simp_all
    moreover have "0 < 1 / D" using Dpos by simp
    ultimately have "of_int r < y + 1 / 2" "y + 1 / 2 < of_int r + 1"
      using yw by linarith+
    then have "k = r" unfolding k_def by (intro floor_unique) simp_all
    then show ?thesis
      using False pk k0 r100 rfloor m_def N_def by (intro exI [of _ k]) auto
  qed
qed

lemma ilog2_unique:
  assumes "2 powi e \<le> x" and "x < 2 powi (e + 1)"
  shows "ilog2 x = e"
proof -
  have "(0::rat) < 2 powi e" by simp
  then have "0 < x" using assms(1) by linarith
  then have b: "2 powi (ilog2 x) \<le> x" "x < 2 powi (ilog2 x + 1)"
    using ilog2_bounds by blast+
  have "(2::rat) powi e < 2 powi (ilog2 x + 1)" using assms(1) b(2) by linarith
  then have "e < ilog2 x + 1" by (rule pow2_less_imp)
  moreover have "(2::rat) powi (ilog2 x) < 2 powi (e + 1)" using assms(2) b(1) by linarith
  then have "ilog2 x < e + 1" by (rule pow2_less_imp)
  ultimately show ?thesis by simp
qed

text \<open>The result of a rounding, from the binary exponent and the rounded significand.\<close>

lemma round_to_double_eval:
  assumes "2 powi e \<le> x" and "x < 2 powi (e + 1)" and "- 1022 \<le> e" and "e < 1000"
    and "rne (x / 2 powi (e - 52)) = m"
  shows "round_to_double x = Finite (of_int m * 2 powi (e - 52))"
proof -
  have "(0::rat) < 2 powi e" by simp
  then have xpos: "0 < x" using assms(1) by linarith
  have il: "ilog2 x = e" using assms(1,2) by (rule ilog2_unique)
  have k: "max (e - 52) (- 1074) = e - 52" using assms(3) by simp
  have "(2::rat) powi (- 1022) \<le> 2 powi e"
    using assms(3) by (intro power_int_increasing) simp_all
  then have lo: "2 powi (- 1022) \<le> x" using assms(1) by linarith
  have "(2::rat) powi (e + 1) \<le> 2 powi 1000"
    using assms(4) by (intro power_int_increasing) simp_all
  then have hi: "x \<le> 2 powi 1000" using assms(2) by linarith
  obtain y where y: "round_to_double x = Finite y"
    using round_to_double_normal [OF lo hi] by blast
  then have "\<not> (2::rat) powi 1024 \<le> of_int m * 2 powi (e - 52)"
    using xpos il k assms(5)
    by (auto simp: round_to_double_def Let_def abs_if split: if_splits)
  then show ?thesis
    using xpos il k assms(5) by (simp add: round_to_double_def Let_def)
qed

lemma rne_down: "of_int m \<le> x \<Longrightarrow> x < of_int m + 1 / 2 \<Longrightarrow> rne x = m"
proof -
  assume a: "of_int m \<le> x" "x < of_int m + 1 / 2"
  then have "\<lfloor>x\<rfloor> = m" by (intro floor_unique) simp_all
  then show ?thesis using a by (simp add: rne_def Let_def)
qed

text \<open>
  The quotient \<open>23 / 40\<close> as a double is \<open>2589569785738035 / 2^52\<close>, below 0.575; its
  product with 100 as a double is \<open>8092405580431359 / 2^47\<close>, below 57.5.
\<close>

lemma js_div_nat_23_40: "js_div_nat 23 40 = Finite (2589569785738035 / 2 ^ 52)"
proof -
  have r: "rne ((23 / 40) / 2 powi (- 1 - 52)) = 5179139571476070"
    by (rule rne_down) (simp_all add: power_int_minus)
  have "round_to_double (23 / 40) = Finite (of_int 5179139571476070 * 2 powi (- 1 - 52))"
    by (rule round_to_double_eval [OF _ _ _ _ r]) (simp_all add: power_int_minus)
  then show ?thesis by (simp add: js_div_nat_def power_int_minus)
qed

lemma js_mul_const_23_40:
  "js_mul_const (js_div_nat 23 40) 100 = Finite (8092405580431359 / 2 ^ 47)"
proof -
  have r: "rne ((2589569785738035 / 2 ^ 52 * 100) / 2 powi (5 - 52)) = 8092405580431359"
    by (rule rne_down) (simp_all add: power_int_minus)
  have "round_to_double (2589569785738035 / 2 ^ 52 * 100)
          = Finite (of_int 8092405580431359 * 2 powi (5 - 52))"
    by (rule round_to_double_eval [OF _ _ _ _ r]) (simp_all add: power_int_minus)
  then show ?thesis by (simp add: js_mul_const_def js_div_nat_23_40 power_int_minus)
qed

lemma percentage_of_23_40: "percentage_of 23 40 = Finite 57"
proof -
  have "\<lfloor>(8092405580431359 / 2 ^ 47 + 1 / 2 :: rat)\<rfloor> = 57"
    by (rule floor_unique) simp_all
  then show ?thesis by (simp add: percentage_of_def js_mul_const_23_40 Math_round_def)
qed

lemma round_half_up_23_40: "round_half_up (of_nat 23 / of_nat 40 * 100) = 58"
proof -
  have "\<lfloor>(23 / 40 * 100 + 1 / 2 :: rat)\<rfloor> = 58" by (rule floor_unique) simp_all
  then show ?thesis by (simp add: round_half_up_def)
qed

lemma percentage_of_1_1: "percentage_of 1 1 = Finite 100"
  by code_simp

lemma percentage_of_all_correct: "percentage_of (Suc 0) (Suc 0) = Finite 100"
  using percentage_of_1_1 by simp

lemma sample_correct_count: "correct_count (JArr [JStr (js ''b'')]) [sample_question] = 1"
  by (simp add: correct_count_def enumerate_simps answer_correct_def sample_question_fields)

lemma quiz_submit_sample_body:
  "quiz_submit timestamp sample_body sample_state
     = (sample_state \<lparr> quizResults := quizResults sample_state @
            [result_of timestamp sample_body [sample_question] (JArr [JStr (js ''b'')])] \<rparr>,
        Reply 200 (QuizSubmitted 1 1 (Finite 100)
                     (wrong_answers_of (JArr [JStr (js ''b'')]) [sample_question])))"
  using quiz_submit_sample_body_accepted
  by (simp add: sample_correct_count percentage_of_all_correct)

text \<open>
  Claim C5, as the service has it. For every accepted submission against a quiz of \<open>n\<close>
  questions (fewer than \<open>2^32\<close>, as an array has), the score is the number of indices \<open>i\<close>
  at which \<open>answers[i]\<close> is strictly equal to the correct value of question \<open>i\<close>, and the
  percentage is \<open>Math.round\<close> of the product \<open>(score / n) * 100\<close> computed in double
  precision. It is an integer between 0 and 100. It is the exact value \<open>score / n * 100\<close>
  rounded half up whenever that value does not lie halfway between two integers; when it
  does, it is that or one less.
\<close>

theorem score_and_percentage:
  assumes "state_ok st" and "currentQuiz st = Some quiz"
    and "get_prop body (js ''answers'') = Some answers"
    and "quiz_submit now body st = (st', Reply 200 (QuizSubmitted sc n p wrongAnswers))"
    and "length quiz < 2 ^ 32"
  shows "sc = card {i. i < length quiz
                     \<and> strict_eq (get_index answers i) (get_prop (quiz ! i) (js ''correct''))}
         \<and> n = length quiz
         \<and> p = Math_round (js_mul_const (js_div_nat sc n) 100)
         \<and> (\<exists>k. p = Finite (of_int k) \<and> 0 \<le> k \<and> k \<le> 100
               \<and> (if (200 * sc + n) mod (2 * n) = 0
                   then k = round_half_up (of_nat sc / of_nat n * 100)
                        \<or> k = round_half_up (of_nat sc / of_nat n * 100) - 1
                   else k = round_half_up (of_nat sc / of_nat n * 100)))"
proof -
  from quiz_submit_200 [OF assms(4)] assms(2,3)
  have sc: "sc = correct_count answers quiz" and n: "n = length quiz"
    and p: "p = percentage_of sc n"
    by auto
  have card: "sc = card {i. i < length quiz
                     \<and> strict_eq (get_index answers i) (get_prop (quiz ! i) (js ''correct''))}"
    using sc by (simp add: correct_count_card answer_correct_def)
  have "card {i. i < length quiz \<and> answer_correct answers i (quiz ! i)}
          \<le> card {i. i < length quiz}"
    by (rule card_mono) auto
  then have le: "sc \<le> n" using sc n by (simp add: correct_count_card)
  from assms(1,2) have "quiz \<noteq> []" by (simp add: state_ok_def)
  then have pos: "0 < n" using n by simp
  have lt: "n < 2 ^ 32" using assms(5) n by simp
  have p': "p = Math_round (js_mul_const (js_div_nat sc n) 100)"
    using p by (simp only: percentage_of_def)
  have d: "\<exists>k. p = Finite (of_int k) \<and> 0 \<le> k \<and> k \<le> 100
               \<and> (if (200 * sc + n) mod (2 * n) = 0
                   then k = round_half_up (of_nat sc / of_nat n * 100)
                        \<or> k = round_half_up (of_nat sc / of_nat n * 100) - 1
                   else k = round_half_up (of_nat sc / of_nat n * 100))"
    unfolding p by (rule percentage_of_rounds [OF pos lt le])
  show ?thesis by (rule conjI [OF card conjI [OF n conjI [OF p' d]]])
qed

theorem score_and_percentage_witness:
  "state_ok sample_state
   \<and> length [sample_question] < (2::nat) ^ 32
   \<and> quiz_submit timestamp sample_body sample_state
       = (sample_state \<lparr> quizResults := quizResults sample_state @
            [result_of timestamp sample_body [sample_question] (JArr [JStr (js ''b'')])] \<rparr>,
          Reply 200 (QuizSubmitted 1 1 (Finite 100)
                       (wrong_answers_of (JArr [JStr (js ''b'')]) [sample_question])))
   \<and> (1::nat) = card {i. i < length [sample_question]
                     \<and> strict_eq (get_index (JArr [JStr (js ''b'')]) i)
                          (get_prop ([sample_question] ! i) (js ''correct''))}
   \<and> Finite 100 = Math_round (js_mul_const (js_div_nat 1 1) 100)"
proof -
  have cur: "currentQuiz sample_state = Some [sample_question]" by (simp add: sample_state_def)
  have len: "length [sample_question] < (2::nat) ^ 32" by simp
  from score_and_percentage
    [OF sample_state_ok cur sample_body_fields(3) quiz_submit_sample_body len]
  have "(1::nat) = card {i. i < length [sample_question]
                     \<and> strict_eq (get_index (JArr [JStr (js ''b'')]) i)
                          (get_prop ([sample_question] ! i) (js ''correct''))}"
    and "Finite 100 = Math_round (js_mul_const (js_div_nat 1 1) 100)"
    by blast+
  then show ?thesis using sample_state_ok quiz_submit_sample_body len by blast
qed

lemma long_state_ok: "state_ok long_state"
  by (simp add: state_ok_def long_state_def list_all_iff valid_sample_question)

lemma long_body_fields:
  "get_prop long_body (js ''name'') = Some (JStr (js ''Ann''))"
  "get_prop long_body (js ''surname'') = Some (JStr (js ''Lee''))"
  "get_prop long_body (js ''answers'') = Some long_answers"
  by (simp_all add: long_body_def)

lemma long_body_not_rejected: "\<not> rejected long_body long_state"
  by (simp add: rejected_def long_body_fields long_state_def long_answers_def)

lemma long_answers_nth:
  "i < 40 \<Longrightarrow> get_index long_answers i = Some (JStr (if i < 23 then js ''b'' else js ''a''))"
  by (simp add: long_answers_def nth_append)

lemma long_correct_count: "correct_count long_answers (replicate 40 sample_question) = 23"
proof -
  have "i < 40 \<and> answer_correct long_answers i (replicate 40 sample_question ! i) \<longleftrightarrow> i < 23"
    for i
  proof (cases "i < 40")
    case True
    then show ?thesis
      by (simp add: answer_correct_def long_answers_nth sample_question_fields)
  next
    case False
    then show ?thesis by simp
  qed
  then have "{i. i < length (replicate 40 sample_question)
            \<and> answer_correct long_answers i (replicate 40 sample_question ! i)}
          = {i. i < 23}"
    by simp
  then show ?thesis by (simp add: correct_count_card)
qed

lemma quiz_submit_long_body:
  "quiz_submit timestamp long_body long_state
     = (long_state \<lparr> quizResults := quizResults long_state @
            [result_of timestamp long_body (replicate 40 sample_question) long_answers] \<rparr>,
        Reply 200 (QuizSubmitted 23 40 (Finite 57)
                     (wrong_answers_of long_answers (replicate 40 sample_question))))"
proof -
  have cur: "currentQuiz long_state = Some (replicate 40 sample_question)"
    by (simp add: long_state_def)
  have "\<forall>i < length (the (currentQuiz long_state)).
          renders (get_index (the (get_prop long_body (js ''answers''))) i)"
    by (simp add: long_body_fields long_state_def long_answers_nth)
  moreover have "renders (get_prop long_body (js ''name''))"
    "renders (get_prop long_body (js ''surname''))"
    "renders (length_or_zero (get_prop long_body (js ''answers'')))"
    by (simp_all add: long_body_fields long_answers_def)
  ultimately obtain quiz answers where
    "currentQuiz long_state = Some quiz" "get_prop long_body (js ''answers'') = Some answers"
    "quiz_submit timestamp long_body long_state =
               (long_state \<lparr> quizResults := quizResults long_state @
                   [result_of timestamp long_body quiz answers] \<rparr>,
                Reply 200 (QuizSubmitted (correct_count answers quiz) (length quiz)
                  (percentage_of (correct_count answers quiz) (length quiz))
                  (wrong_answers_of answers quiz)))"
    using quiz_submit_accepted [OF long_state_ok long_body_not_rejected, of timestamp] by blast
  moreover from this cur long_body_fields(3)
  have "quiz = replicate 40 sample_question" "answers = long_answers" by simp_all
  moreover have "length (replicate 40 sample_question) = 40" by simp
  ultimately show ?thesis by (simp only: long_correct_count percentage_of_23_40)
qed

text \<open>
  Claim C5 as stated fails: with 23 of 40 answers correct the exact percentage is 57.5,
  which rounds half up to 58; the quotient \<open>23 / 40\<close> as a double is just below 0.575, the
  product is 57.49999999999999, and the service answers 57.
\<close>

theorem percentage_below_half_rounds_down:
  "status (snd (quiz_submit timestamp long_body long_state)) = 200
   \<and> reply_score (snd (quiz_submit timestamp long_body long_state)) = Some 23
   \<and> reply_percentage (snd (quiz_submit timestamp long_body long_state)) = Some (Finite 57)
   \<and> round_half_up (of_nat 23 / of_nat 40 * 100) = 58"
  using round_half_up_23_40 by (simp only: quiz_submit_long_body snd_conv status.simps
    reply_score.simps reply_percentage.simps simp_thms)

end
